theory Spec2Isabelle
  imports Main
begin

section \<open>JavaScript values used by the streaming pipeline\<close>

text \<open>
  The streaming pipeline of LocalChat lives in two TypeScript modules: the API client
  (\<^verbatim>\<open>sendMessage\<close> with its inner \<^verbatim>\<open>readStream\<close>) and the \<^verbatim>\<open>Chat\<close> component
  (\<^verbatim>\<open>sanitizeMarkdown\<close>, the streaming callbacks, \<^verbatim>\<open>handleStopStreaming\<close> and the effect
  that copies fetched messages into the local view). Each function is translated below
  as it is written. A JavaScript string is a \<^typ>\<open>string\<close>; one \<^typ>\<open>char\<close> stands for one
  UTF-16 code unit below \<^verbatim>\<open>0x100\<close>.
\<close>

datatype js_error =
  TypeError
    \<comment> \<open>a property read on \<^verbatim>\<open>undefined\<close>\<close>
  | ServerError nat
    \<comment> \<open>\<^verbatim>\<open>new Error(`Server error: ${response.status}`)\<close>\<close>
  | NoResponseBody
    \<comment> \<open>\<^verbatim>\<open>new Error('No response body received')\<close>\<close>
  | NetworkError string
    \<comment> \<open>a rejection of \<^verbatim>\<open>fetch\<close>, of \<^verbatim>\<open>api.post\<close> or of \<^verbatim>\<open>reader.read()\<close>\<close>

subsection \<open>String methods\<close>

text \<open>
  \<^verbatim>\<open>String.prototype.trim\<close> removes white space and line terminators from both ends.
  Below \<^verbatim>\<open>0x100\<close> these are TAB, LF, VT, FF, CR, SPACE and NBSP.
\<close>

definition is_space :: "char \<Rightarrow> bool" where
  "is_space c = (c \<in> set [CHR 0x09, CHR 0x0A, CHR 0x0B, CHR 0x0C, CHR 0x0D, CHR 0x20, CHR 0xA0])"

definition trim :: "string \<Rightarrow> string" where
  "trim s = rev (dropWhile is_space (rev (dropWhile is_space s)))"

definition startsWith :: "string \<Rightarrow> string \<Rightarrow> bool" where
  "startsWith s p = (take (length p) s = p)"

definition endsWith :: "string \<Rightarrow> string \<Rightarrow> bool" where
  "endsWith s p = (length p \<le> length s \<and> drop (length s - length p) s = p)"

fun includes_str :: "string \<Rightarrow> string \<Rightarrow> bool" where
  "includes_str [] p = (p = [])"
| "includes_str (c # cs) p = (startsWith (c # cs) p \<or> includes_str cs p)"

text \<open>
  \<^verbatim>\<open>s.split(sep)\<close> for a non-empty separator: the pieces between the successive,
  non-overlapping occurrences of \<^verbatim>\<open>sep\<close>, found from the left.
\<close>

function split_from :: "string \<Rightarrow> string \<Rightarrow> string \<Rightarrow> string list" where
  "split_from sep acc [] = [acc]"
| "split_from sep acc (c # cs) =
     (if sep \<noteq> [] \<and> startsWith (c # cs) sep
      then acc # split_from sep [] (drop (length sep) (c # cs))
      else split_from sep (acc @ [c]) cs)"
  by pat_completeness auto
termination
  by (relation "measure (\<lambda>(sep, acc, s). length s)") (auto simp: neq_Nil_conv)

definition split :: "string \<Rightarrow> string \<Rightarrow> string list" where
  "split s sep = split_from sep [] s"

fun join :: "string list \<Rightarrow> string \<Rightarrow> string" where
  "join [] sep = []"
| "join [x] sep = x"
| "join (x # y # ys) sep = x @ sep @ join (y # ys) sep"

definition repeat :: "string \<Rightarrow> nat \<Rightarrow> string" where
  "repeat s n = concat (replicate n s)"

definition substring :: "string \<Rightarrow> nat \<Rightarrow> string" where
  "substring s start = drop start s"

text \<open>\<^verbatim>\<open>xs.splice(start, 0, item)\<close> with \<^verbatim>\<open>start \<ge> 0\<close>: insertion, clamped to the end.\<close>

definition splice_insert :: "string list \<Rightarrow> nat \<Rightarrow> string \<Rightarrow> string list" where
  "splice_insert xs start item = take start xs @ item # drop start xs"

section \<open>The Markdown sanitizer\<close>

subsection \<open>Step 1: incomplete tables\<close>

text \<open>
  The \<^verbatim>\<open>for\<close> loop of \<^verbatim>\<open>sanitizeMarkdown\<close> walks over \<^verbatim>\<open>lines\<close> with four local
  variables. The array grows while the loop runs (\<^verbatim>\<open>splice\<close>), so the loop state carries
  it along.
\<close>

record table_scan =
  lines :: "string list"
  inTable :: bool
  tableStartIndex :: int
  hasHeader :: bool
  hasDivider :: bool

text \<open>\<^verbatim>\<open>line.startsWith('|') && line.endsWith('|')\<close>\<close>

definition is_pipe_row :: "string \<Rightarrow> bool" where
  "is_pipe_row line = (startsWith line ''|'' \<and> endsWith line ''|'')"

text \<open>\<^verbatim>\<open>line.replace(/[^\-|]/g, '') === line\<close>\<close>

definition only_dashes_and_pipes :: "string \<Rightarrow> bool" where
  "only_dashes_and_pipes line = (filter (\<lambda>c. c = CHR ''-'' \<or> c = CHR ''|'') line = line)"

text \<open>
  The divider synthesised for a header line:
  \<^verbatim>\<open>headerCells = header.split('|').length - 2\<close> and
  \<^verbatim>\<open>'|' + ' --- |'.repeat(headerCells > 0 ? headerCells : 1)\<close>.
\<close>

definition divider_row :: "string \<Rightarrow> string" where
  "divider_row header =
     (let headerCells = int (length (split header ''|'')) - 2
      in ''|'' @ repeat '' --- |'' (if headerCells > 0 then nat headerCells else 1))"

text \<open>
  \<^verbatim>\<open>lines[tableStartIndex].split('|')\<close> throws a \<^verbatim>\<open>TypeError\<close> when the index is outside
  the array, since \<^verbatim>\<open>lines[tableStartIndex]\<close> is then \<^verbatim>\<open>undefined\<close>.
\<close>

definition make_divider :: "string list \<Rightarrow> int \<Rightarrow> js_error + string" where
  "make_divider ls t =
     (if 0 \<le> t \<and> nat t < length ls then Inr (divider_row (ls ! nat t)) else Inl TypeError)"

text \<open>The branch of the loop body for a line that starts and ends with a pipe.\<close>

definition pipe_row_step :: "nat \<Rightarrow> string \<Rightarrow> table_scan \<Rightarrow> table_scan" where
  "pipe_row_step i line s =
     (let s1 = (if \<not> inTable s then s\<lparr>inTable := True, tableStartIndex := int i\<rparr> else s);
          s2 = (if inTable s1 \<and> int i = tableStartIndex s1 then s1\<lparr>hasHeader := True\<rparr> else s1);
          s3 = (if inTable s2 \<and> int i = tableStartIndex s2 + 1 \<and> only_dashes_and_pipes line
                then s2\<lparr>hasDivider := True\<rparr> else s2)
      in s3)"

text \<open>
  The branch for an empty line inside a table. It returns the loop index as the body
  leaves it (\<^verbatim>\<open>i++\<close> after an insertion) together with the new state.
\<close>

definition end_of_table_step :: "nat \<Rightarrow> table_scan \<Rightarrow> js_error + (nat \<times> table_scan)" where
  "end_of_table_step i s =
     (let s1 = s\<lparr>inTable := False\<rparr> in
      if hasHeader s1 \<and> \<not> hasDivider s1 then
        (case make_divider (lines s1) (tableStartIndex s1) of
           Inl e \<Rightarrow> Inl e
         | Inr divider \<Rightarrow>
             Inr (i + 1, s1\<lparr>lines := splice_insert (lines s1) (nat (tableStartIndex s1 + 1)) divider,
                             hasHeader := False, hasDivider := False\<rparr>))
      else Inr (i, s1\<lparr>hasHeader := False, hasDivider := False\<rparr>))"

definition table_step :: "nat \<Rightarrow> table_scan \<Rightarrow> js_error + (nat \<times> table_scan)" where
  "table_step i s =
     (let line = trim (lines s ! i) in
      if is_pipe_row line then Inr (i, pipe_row_step i line s)
      else if inTable s \<and> line = [] then end_of_table_step i s
      else Inr (i, s))"

lemma pipe_row_step_lines [simp]: "lines (pipe_row_step i line s) = lines s"
  by (simp add: pipe_row_step_def Let_def)

lemma length_splice_insert [simp]: "length (splice_insert xs n x) = Suc (length xs)"
  by (simp add: splice_insert_def)

lemma end_of_table_step_cases:
  assumes "end_of_table_step i s = Inr (i', s')"
  shows "(i' = i \<and> lines s' = lines s) \<or> (i' = Suc i \<and> length (lines s') = Suc (length (lines s)))"
proof (cases "hasHeader s \<and> \<not> hasDivider s")
  case True
  with assms show ?thesis
    by (cases "make_divider (lines s) (tableStartIndex s)")
       (auto simp: end_of_table_step_def)
next
  case False
  with assms show ?thesis
    by (auto simp: end_of_table_step_def)
qed

lemma table_step_cases:
  assumes "table_step i s = Inr (i', s')"
  shows "(i' = i \<and> lines s' = lines s) \<or> (i' = Suc i \<and> length (lines s') = Suc (length (lines s)))"
proof (cases "is_pipe_row (trim (lines s ! i))")
  case True
  with assms show ?thesis by (auto simp: table_step_def)
next
  case no_row: False
  show ?thesis
  proof (cases "inTable s \<and> trim (lines s ! i) = []")
    case True
    with no_row assms have "end_of_table_step i s = Inr (i', s')"
      by (simp add: table_step_def)
    then show ?thesis by (rule end_of_table_step_cases)
  next
    case False
    with no_row assms show ?thesis
      by (auto simp: table_step_def)
  qed
qed

lemma table_step_measure:
  "i < length (lines s) \<Longrightarrow> table_step i s = Inr (i', s') \<Longrightarrow>
   length (lines s') - Suc i' < length (lines s) - i"
  using table_step_cases[of i s i' s'] by auto

text \<open>\<^verbatim>\<open>for (let i = 0; i < lines.length; i++) { ... }\<close>\<close>

function table_loop :: "nat \<Rightarrow> table_scan \<Rightarrow> js_error + table_scan" where
  "table_loop i s =
     (if i < length (lines s)
      then (case table_step i s of
              Inl e \<Rightarrow> Inl e
            | Inr (i', s') \<Rightarrow> table_loop (i' + 1) s')
      else Inr s)"
  by pat_completeness auto
termination
  by (relation "measure (\<lambda>(i, s). length (lines s) - i)") (auto dest: table_step_measure)

declare table_loop.simps [simp del]

text \<open>
  The whole first step: the guard \<^verbatim>\<open>hasTableStart\<close>, the loop, the repair of a table
  that reaches the end of the content, and \<^verbatim>\<open>lines.join('\n')\<close>.
\<close>

definition fix_tables :: "string \<Rightarrow> js_error + string" where
  "fix_tables content =
     (if includes_str content ''|'' \<and> includes_str content ''---'' then
        (case table_loop 0 \<lparr>lines = split content ''\<newline>'', inTable = False,
                             tableStartIndex = -1, hasHeader = False, hasDivider = False\<rparr> of
           Inl e \<Rightarrow> Inl e
         | Inr s \<Rightarrow>
             (if inTable s \<and> hasHeader s \<and> \<not> hasDivider s then
                (case make_divider (lines s) (tableStartIndex s) of
                   Inl e \<Rightarrow> Inl e
                 | Inr divider \<Rightarrow>
                     Inr (join (splice_insert (lines s) (nat (tableStartIndex s + 1)) divider) ''\<newline>''))
              else Inr (join (lines s) ''\<newline>'')))
      else Inr content)"

subsection \<open>Step 2: code blocks\<close>

text \<open>
  The second step is
  \<^verbatim>\<open>content.replace(/```([^\n]*)(\n[\s\S]*?)?(```)?/g, (match, lang, code, end) => ...)\<close>.
  A match starts at three backticks. The group \<^verbatim>\<open>lang\<close> is greedy and takes the rest of
  the line. The group \<^verbatim>\<open>code\<close> is a line feed followed by a lazy repetition; what follows
  it in the pattern is optional, so the repetition never has to grow and \<^verbatim>\<open>code\<close> is the
  line feed alone, or takes no part when the text ends after \<^verbatim>\<open>lang\<close>. The group \<^verbatim>\<open>end\<close>
  takes part exactly when three backticks stand right there.
\<close>

definition fence :: string where
  "fence = replicate 3 (CHR 0x60)"

definition not_newline :: "char \<Rightarrow> bool" where
  "not_newline c = (c \<noteq> CHR 0x0A)"

record code_block_match =
  whole :: string
  lang :: string
  code :: "string option"
  end_fence :: "string option"
  remainder :: string

definition match_code_block :: "string \<Rightarrow> code_block_match option" where
  "match_code_block s =
     (if startsWith s fence then
        (let after_open = drop 3 s;
             lang = takeWhile not_newline after_open;
             after_lang = dropWhile not_newline after_open;
             code = (if after_lang = [] then None else Some (take 1 after_lang));
             after_code = drop 1 after_lang;
             end = (if startsWith after_code fence then Some fence else None);
             after_end = (if end = None then after_code else drop 3 after_code)
         in Some \<lparr>whole = take (length s - length after_end) s, lang = lang, code = code,
                   end_fence = end, remainder = after_end\<rparr>)
      else None)"

text \<open>
  The replacement callback:
  \<^verbatim>\<open>if (!end) { return `\`\`\`${lang || ''}${code || ''}\`\`\`` } return match\<close>.
\<close>

definition replacer :: "code_block_match \<Rightarrow> string" where
  "replacer m =
     (if end_fence m = None
      then fence @ lang m @ (case code m of None \<Rightarrow> [] | Some c \<Rightarrow> c) @ fence
      else whole m)"

lemma startsWith_fence_length: "startsWith s fence \<Longrightarrow> 3 \<le> length s"
proof -
  assume "startsWith s fence"
  then have "length (take 3 s) = 3"
    by (simp add: startsWith_def fence_def)
  then show ?thesis by simp
qed

lemma match_code_block_remainder:
  assumes "match_code_block s = Some m"
  shows "length (remainder m) + 3 \<le> length s"
proof -
  from assms have sw: "startsWith s fence"
    by (cases "startsWith s fence") (simp_all add: match_code_block_def)
  let ?ac = "drop 1 (dropWhile not_newline (drop 3 s))"
  from assms sw have "remainder m = (if startsWith ?ac fence then drop 3 ?ac else ?ac)"
    by (auto simp: match_code_block_def Let_def)
  then have "length (remainder m) \<le> length (dropWhile not_newline (drop 3 s))"
    by simp
  also have "\<dots> \<le> length (drop 3 s)"
    by (rule length_dropWhile_le)
  finally have "length (remainder m) \<le> length s - 3"
    by simp
  with startsWith_fence_length[OF sw] show ?thesis by linarith
qed

text \<open>The global replace: text outside the matches is copied.\<close>

function replace_code_blocks :: "string \<Rightarrow> string" where
  "replace_code_blocks [] = []"
| "replace_code_blocks (c # cs) =
     (case match_code_block (c # cs) of
        None \<Rightarrow> c # replace_code_blocks cs
      | Some m \<Rightarrow> replacer m @ replace_code_blocks (remainder m))"
  by pat_completeness auto
termination
proof (relation "measure length", goal_cases)
  case 1
  show ?case by simp
next
  case (2 c cs)
  show ?case by simp
next
  case (3 c cs m)
  from match_code_block_remainder[OF 3] show ?case by simp
qed

subsection \<open>The function\<close>

text \<open>
  The body of the \<^verbatim>\<open>try\<close> block. The only operation in it that can throw is the index
  read of step 1, which comes before \<^verbatim>\<open>content\<close> is assigned.
\<close>

definition sanitize_try :: "string \<Rightarrow> js_error + string" where
  "sanitize_try content =
     (case fix_tables content of
        Inl e \<Rightarrow> Inl e
      | Inr content' \<Rightarrow> Inr (replace_code_blocks content'))"

text \<open>\<^verbatim>\<open>catch (error) { console.error(...); return content }\<close>\<close>

definition catch_fallback :: "string \<Rightarrow> js_error + string \<Rightarrow> string" where
  "catch_fallback content outcome = (case outcome of Inl e \<Rightarrow> content | Inr r \<Rightarrow> r)"

definition sanitizeMarkdown :: "string \<Rightarrow> string" where
  "sanitizeMarkdown content =
     (if content = [] then [] else catch_fallback content (sanitize_try content))"

section \<open>The API client\<close>

subsection \<open>Messages and the network\<close>

datatype role = User | Assistant

record message =
  message_id :: int
  chat_id :: int
  role :: role
  content :: string
  created_at :: string

record message_form_data =
  form_role :: role
  form_content :: string

text \<open>
  A response body is read with \<^verbatim>\<open>reader.read()\<close>. Each read either resolves with a chunk
  (given here as the text \<^verbatim>\<open>decoder.decode(value, { stream: true })\<close> makes of it) or
  rejects. A body is the list of the outcomes of its reads; once the list is used up the
  next read resolves with \<^verbatim>\<open>done\<close>.
\<close>

datatype read_result = Value string | Rejected js_error

record response =
  ok :: bool
  status :: nat
  body :: "read_result list option"

text \<open>
  What the server answers to the request of the non-streaming branch (\<^verbatim>\<open>api.post\<close>) and to
  the request of the streaming branch (\<^verbatim>\<open>fetch\<close>); \<^term>\<open>Inl\<close> is a rejected promise.
\<close>

record network =
  post :: "js_error + message"
  fetch :: "js_error + response"

text \<open>
  \<^verbatim>\<open>sendMessage\<close> starts \<^verbatim>\<open>readStream()\<close> without awaiting it. The reads that are still
  to be made for each request stay with the transport, one entry per started request,
  with the chat it was made for.
\<close>

record transport =
  inFlight :: "(int \<times> read_result list) list"

subsection \<open>Streaming options\<close>

text \<open>
  The callbacks receive JavaScript values. Two kinds occur: a primitive string, and a
  \<^verbatim>\<open>MessageEvent\<close>, an object whose property \<^verbatim>\<open>data\<close> holds a string. A callback is a
  function on the state of its owner (for the \<^verbatim>\<open>Chat\<close> component: its React state).
\<close>

datatype js_value = JSString string | MessageEvent string

record 's StreamingOptions =
  streaming :: bool
  onChunk :: "(js_value \<Rightarrow> 's \<Rightarrow> 's) option"
  onComplete :: "('s \<Rightarrow> 's) option"
  onError :: "(js_error \<Rightarrow> 's \<Rightarrow> 's) option"

subsection \<open>\<^verbatim>\<open>sendMessage\<close>\<close>

definition placeholderMessage :: "int \<Rightarrow> string \<Rightarrow> message" where
  "placeholderMessage chatId now =
     \<lparr>message_id = -1, chat_id = chatId, role = Assistant, content = [], created_at = now\<rparr>"

text \<open>
  The value the returned promise settles with, and the transport afterwards. \<^verbatim>\<open>now\<close> is
  \<^verbatim>\<open>new Date().toISOString()\<close>. The function looks at nothing but its arguments and the
  server's answer: it keeps no record of earlier calls.
\<close>

definition sendMessage ::
  "int \<Rightarrow> message_form_data \<Rightarrow> 's StreamingOptions option \<Rightarrow> network \<Rightarrow> string \<Rightarrow> transport
   \<Rightarrow> (js_error + message) \<times> transport" where
  "sendMessage chatId message options net now tr =
     (if \<not> (case options of None \<Rightarrow> False | Some opts \<Rightarrow> streaming opts) then
        (case post net of
           Inl e \<Rightarrow> (Inl e, tr)
         | Inr data \<Rightarrow> (Inr data, tr))
      else
        (case fetch net of
           Inl e \<Rightarrow> (Inl e, tr)
         | Inr response \<Rightarrow>
             if \<not> ok response then (Inl (ServerError (status response)), tr)
             else (case body response of
                     None \<Rightarrow> (Inl NoResponseBody, tr)
                   | Some reader \<Rightarrow>
                       (Inr (placeholderMessage chatId now),
                        tr\<lparr>inFlight := inFlight tr @ [(chatId, reader)]\<rparr>))))"

subsection \<open>\<^verbatim>\<open>readStream\<close>\<close>

text \<open>
  The body of \<^verbatim>\<open>for (const line of lines)\<close>: a line that starts with \<^verbatim>\<open>data: \<close> has its
  prefix removed, and what is left is passed to \<^verbatim>\<open>onChunk\<close>, as a string, when it is not
  empty.
\<close>

definition deliver_line :: "'s StreamingOptions \<Rightarrow> string \<Rightarrow> 's \<Rightarrow> 's" where
  "deliver_line options line st =
     (if startsWith line ''data: '' then
        (let data = substring line 6 in
         case onChunk options of
           Some f \<Rightarrow> if data \<noteq> [] then f (JSString data) st else st
         | None \<Rightarrow> st)
      else st)"

fun deliver_lines :: "'s StreamingOptions \<Rightarrow> string list \<Rightarrow> 's \<Rightarrow> 's" where
  "deliver_lines options [] st = st"
| "deliver_lines options (line # rest) st = deliver_lines options rest (deliver_line options line st)"

text \<open>\<^verbatim>\<open>catch (error) { ...; if (options?.onError) options.onError(error) }\<close>\<close>

definition catch_clause :: "'s StreamingOptions \<Rightarrow> js_error \<Rightarrow> 's \<Rightarrow> 's" where
  "catch_clause options error st = (case onError options of Some f \<Rightarrow> f error st | None \<Rightarrow> st)"

text \<open>\<^verbatim>\<open>finally { if (options?.onComplete) options.onComplete() }\<close>\<close>

definition finally_clause :: "'s StreamingOptions \<Rightarrow> 's \<Rightarrow> 's" where
  "finally_clause options st = (case onComplete options of Some f \<Rightarrow> f st | None \<Rightarrow> st)"

text \<open>
  The \<^verbatim>\<open>while (true)\<close> loop inside \<^verbatim>\<open>try\<close>: it ends with \<^verbatim>\<open>break\<close> when a read reports
  \<^verbatim>\<open>done\<close>, or in the \<^verbatim>\<open>catch\<close> clause when a read rejects; the \<^verbatim>\<open>finally\<close> clause runs in
  both cases. Each chunk is split on its own at \<^verbatim>\<open>'\n\n'\<close>.
\<close>

fun readStream :: "'s StreamingOptions \<Rightarrow> read_result list \<Rightarrow> 's \<Rightarrow> 's" where
  "readStream options [] st = finally_clause options st"
| "readStream options (Value chunk # rest) st =
     readStream options rest (deliver_lines options (split chunk ''\<newline>\<newline>'') st)"
| "readStream options (Rejected error # rest) st =
     finally_clause options (catch_clause options error st)"

text \<open>
  The state while the stream is still in flight: the loop has handled the chunks read so
  far and is waiting for the next read.
\<close>

fun readChunks :: "'s StreamingOptions \<Rightarrow> string list \<Rightarrow> 's \<Rightarrow> 's" where
  "readChunks options [] st = st"
| "readChunks options (chunk # rest) st =
     readChunks options rest (deliver_lines options (split chunk ''\<newline>\<newline>'') st)"

subsection \<open>Observing the callbacks\<close>

text \<open>
  Options whose callbacks write down that they were called. Running \<^const>\<open>readStream\<close>
  with them gives the sequence of callback invocations; \<^verbatim>\<open>replay\<close> applies such a
  sequence to the callbacks of any other options.
\<close>

datatype signal = Fragment js_value | Failed js_error | Completed

definition recorder :: "(signal list) StreamingOptions" where
  "recorder =
     \<lparr>streaming = True,
      onChunk = Some (\<lambda>v tr. tr @ [Fragment v]),
      onComplete = Some (\<lambda>tr. tr @ [Completed]),
      onError = Some (\<lambda>e tr. tr @ [Failed e])\<rparr>"

fun replay :: "'s StreamingOptions \<Rightarrow> signal list \<Rightarrow> 's \<Rightarrow> 's" where
  "replay options [] st = st"
| "replay options (Fragment v # rest) st =
     replay options rest (case onChunk options of Some f \<Rightarrow> f v st | None \<Rightarrow> st)"
| "replay options (Failed e # rest) st = replay options rest (catch_clause options e st)"
| "replay options (Completed # rest) st = replay options rest (finally_clause options st)"

text \<open>The non-empty payloads of the \<^verbatim>\<open>data: \<close> lines of one chunk, in order.\<close>

definition payloads :: "string \<Rightarrow> string list" where
  "payloads chunk =
     filter (\<lambda>data. data \<noteq> [])
       (map (\<lambda>line. substring line 6)
         (filter (\<lambda>line. startsWith line ''data: '') (split chunk ''\<newline>\<newline>'')))"

section \<open>The Chat component\<close>

subsection \<open>JSON values\<close>

text \<open>
  \<^verbatim>\<open>JSON.parse\<close> belongs to the platform. It is a parameter of the model: a function from
  the text to the parsed value, \<^term>\<open>None\<close> when it throws a \<^verbatim>\<open>SyntaxError\<close>. A number is
  kept as the text that JavaScript prints for it.
\<close>

datatype json =
  JNull | JBool bool | JNumber string | JString string
  | JArray "json list" | JObject "(string \<times> json) list"

type_synonym json_parser = "string \<Rightarrow> json option"

text \<open>
  The text that \<^verbatim>\<open>prev + parsedData\<close> appends to the string \<^verbatim>\<open>prev\<close>: a string as it is,
  any other value converted to a string (an array joins its elements with commas and
  prints \<^verbatim>\<open>null\<close> elements as nothing).
\<close>

fun js_to_string :: "json \<Rightarrow> string" where
  "js_to_string JNull = ''null''"
| "js_to_string (JBool b) = (if b then ''true'' else ''false'')"
| "js_to_string (JNumber r) = r"
| "js_to_string (JString s) = s"
| "js_to_string (JArray xs) =
     join (map (\<lambda>x. if x = JNull then [] else js_to_string x) xs) '',''"
| "js_to_string (JObject kvs) = ''[object Object]''"

text \<open>
  \<^verbatim>\<open>event.data\<close>: the property of a \<^verbatim>\<open>MessageEvent\<close>; a primitive string has no such
  property and the read gives \<^verbatim>\<open>undefined\<close> (\<^term>\<open>None\<close>).
\<close>

definition event_data :: "js_value \<Rightarrow> string option" where
  "event_data event = (case event of MessageEvent d \<Rightarrow> Some d | JSString s \<Rightarrow> None)"

text \<open>
  \<^verbatim>\<open>JSON.parse(data)\<close>: the argument \<^verbatim>\<open>undefined\<close> is converted to the text
  \<^verbatim>\<open>undefined\<close>, which is not JSON, so the call throws.
\<close>

definition JSON_parse :: "json_parser \<Rightarrow> string option \<Rightarrow> json option" where
  "JSON_parse parse data = (case data of None \<Rightarrow> None | Some d \<Rightarrow> parse d)"

text \<open>\<^verbatim>\<open>prev + data\<close> in the fallback branch.\<close>

definition concat_data :: "string \<Rightarrow> string option \<Rightarrow> string" where
  "concat_data prev data = prev @ (case data of None \<Rightarrow> ''undefined'' | Some d \<Rightarrow> d)"

subsection \<open>State\<close>

text \<open>
  The \<^verbatim>\<open>useState\<close> cells that the streaming code reads and writes, and the number of
  calls of \<^verbatim>\<open>refetchMessages()\<close> made so far.
\<close>

record chat_state =
  isTyping :: bool
  streamingEnabled :: bool
  streamingMessage :: string
  localMessages :: "message list"
  refetchRequests :: nat

definition refetchMessages :: "chat_state \<Rightarrow> chat_state" where
  "refetchMessages st = st\<lparr>refetchRequests := refetchRequests st + 1\<rparr>"

text \<open>
  The effect that copies the fetched messages into the local view:
  \<^verbatim>\<open>useEffect(() => { if (messages && messages.length > 0) setLocalMessages(messages) }, [messages])\<close>.
  Its body runs after a render in which \<^verbatim>\<open>messages\<close> is not the value the effect saw at
  its previous run. The query hands out the value it had before when a refetch returns
  equal data, so the body runs exactly when the fetched list differs from the list of the
  previous run (\<^verbatim>\<open>previous\<close>; \<^term>\<open>None\<close> before the first run).
\<close>

definition syncLocalMessages :: "message list option \<Rightarrow> message list \<Rightarrow> chat_state \<Rightarrow> chat_state" where
  "syncLocalMessages previous messages st =
     (if previous = Some messages then st
      else if length messages > 0 then st\<lparr>localMessages := messages\<rparr> else st)"

subsection \<open>The callbacks of \<^verbatim>\<open>streamingOptions\<close>\<close>

definition Chat_onChunk :: "json_parser \<Rightarrow> js_value \<Rightarrow> chat_state \<Rightarrow> chat_state" where
  "Chat_onChunk parse event st =
     (let data = event_data event in
      if data = Some ''[DONE]'' then refetchMessages (st\<lparr>isTyping := False\<rparr>)
      else (case JSON_parse parse data of
              Some parsedData \<Rightarrow>
                st\<lparr>streamingMessage := streamingMessage st @ js_to_string parsedData\<rparr>
            | None \<Rightarrow>
                st\<lparr>streamingMessage := concat_data (streamingMessage st) data\<rparr>))"

text \<open>
  \<^verbatim>\<open>onComplete\<close> reads the variable \<^verbatim>\<open>streamingMessage\<close> of the render in which the
  mutation function was created; \<^verbatim>\<open>captured\<close> is that value. \<^verbatim>\<open>now\<close> is \<^verbatim>\<open>Date.now()\<close>
  and \<^verbatim>\<open>stamp\<close> is \<^verbatim>\<open>new Date().toISOString()\<close>.
\<close>

definition Chat_onComplete :: "string \<Rightarrow> int \<Rightarrow> string \<Rightarrow> int \<Rightarrow> chat_state \<Rightarrow> chat_state" where
  "Chat_onComplete captured now stamp chatId st =
     (let finalMessage = captured;
          st1 = (if finalMessage \<noteq> [] \<and> trim finalMessage \<noteq> [] then
                   st\<lparr>localMessages := localMessages st @
                        [\<lparr>message_id = now + 1, chat_id = chatId, role = Assistant,
                          content = sanitizeMarkdown finalMessage, created_at = stamp\<rparr>]\<rparr>
                 else st)
      in refetchMessages (st1\<lparr>isTyping := False\<rparr>))"

definition Chat_onError :: "js_error \<Rightarrow> chat_state \<Rightarrow> chat_state" where
  "Chat_onError error st = refetchMessages (st\<lparr>isTyping := False\<rparr>)"

definition streamingOptions ::
  "json_parser \<Rightarrow> string \<Rightarrow> int \<Rightarrow> string \<Rightarrow> int \<Rightarrow> chat_state StreamingOptions" where
  "streamingOptions parse captured now stamp chatId =
     \<lparr>streaming = True,
      onChunk = Some (Chat_onChunk parse),
      onComplete = Some (Chat_onComplete captured now stamp chatId),
      onError = Some Chat_onError\<rparr>"

subsection \<open>\<^verbatim>\<open>handleStopStreaming\<close>\<close>

text \<open>
  The handler is created anew in every render, so it reads the current draft. It calls
  \<^verbatim>\<open>cancelStreamingResponse()\<close>, which \<^verbatim>\<open>Chat.tsx\<close> imports from the API module. The
  API module translated above does not define it, so it is a parameter here: any function
  on the state of the transport. It is called without arguments and has no access to the
  state of the component. The two timers set at the end only schedule later calls of
  \<^verbatim>\<open>refetchMessages\<close> and are left out.
\<close>

definition handleStopStreaming ::
  "('t \<Rightarrow> 't) \<Rightarrow> int \<Rightarrow> string \<Rightarrow> int \<Rightarrow> chat_state \<times> 't \<Rightarrow> chat_state \<times> 't" where
  "handleStopStreaming cancelStreamingResponse now stamp chatId w =
     (let st = fst w;
          finalMessage = streamingMessage st;
          tr = cancelStreamingResponse (snd w);
          st1 = st\<lparr>isTyping := False\<rparr>;
          st2 = (if finalMessage \<noteq> [] \<and> trim finalMessage \<noteq> [] then
                   st1\<lparr>localMessages := localMessages st1 @
                        [\<lparr>message_id = now, chat_id = chatId, role = Assistant,
                          content = sanitizeMarkdown finalMessage, created_at = stamp\<rparr>]\<rparr>
                 else st1)
      in (st2, tr))"

subsection \<open>The provisional entry\<close>

text \<open>
  What the component renders for the answer in progress: \<^verbatim>\<open>{isTyping && (...)}\<close> is one
  block, showing the sanitized draft when streaming is enabled and the draft is not empty,
  and three dots (no text) otherwise.
\<close>

definition provisionalEntries :: "chat_state \<Rightarrow> string list" where
  "provisionalEntries st =
     (if isTyping st
      then [if streamingEnabled st \<and> streamingMessage st \<noteq> []
            then sanitizeMarkdown (streamingMessage st) else []]
      else [])"

section \<open>The table scan never throws\<close>

text \<open>
  While \<^verbatim>\<open>hasHeader\<close> is set, \<^verbatim>\<open>tableStartIndex\<close> points into the array.
\<close>

definition scan_ok :: "table_scan \<Rightarrow> bool" where
  "scan_ok s = (hasHeader s \<longrightarrow> 0 \<le> tableStartIndex s \<and> nat (tableStartIndex s) < length (lines s))"

lemma make_divider_ok:
  "scan_ok s \<Longrightarrow> hasHeader s \<Longrightarrow> \<exists>d. make_divider (lines s) (tableStartIndex s) = Inr d"
  by (simp add: scan_ok_def make_divider_def)

lemma pipe_row_step_ok:
  assumes "i < length (lines s)" and "scan_ok s"
  shows "scan_ok (pipe_row_step i line s)"
proof (cases "inTable s")
  case True
  with assms show ?thesis
    by (auto simp: pipe_row_step_def Let_def scan_ok_def)
next
  case False
  with assms show ?thesis
    by (auto simp: pipe_row_step_def Let_def scan_ok_def)
qed

lemma end_of_table_step_ok:
  assumes "scan_ok s"
  shows "\<exists>i' s'. end_of_table_step i s = Inr (i', s') \<and> scan_ok s'"
proof (cases "hasHeader s \<and> \<not> hasDivider s")
  case True
  then obtain d where "make_divider (lines s) (tableStartIndex s) = Inr d"
    using make_divider_ok[OF assms] by blast
  with True show ?thesis
    by (simp add: end_of_table_step_def scan_ok_def)
next
  case False
  then show ?thesis
    by (auto simp: end_of_table_step_def scan_ok_def)
qed

lemma table_step_ok:
  assumes "i < length (lines s)" and "scan_ok s"
  shows "\<exists>i' s'. table_step i s = Inr (i', s') \<and> scan_ok s'"
proof (cases "is_pipe_row (trim (lines s ! i))")
  case True
  with pipe_row_step_ok[OF assms] show ?thesis
    by (simp add: table_step_def)
next
  case no_row: False
  show ?thesis
  proof (cases "inTable s \<and> trim (lines s ! i) = []")
    case True
    with no_row end_of_table_step_ok[OF assms(2), of i] show ?thesis
      by (simp add: table_step_def)
  next
    case False
    with no_row assms(2) show ?thesis
      by (auto simp: table_step_def)
  qed
qed

lemma table_loop_ok:
  "scan_ok s \<Longrightarrow> \<exists>s'. table_loop i s = Inr s' \<and> scan_ok s'"
proof (induction i s rule: table_loop.induct)
  case (1 i s)
  show ?case
  proof (cases "i < length (lines s)")
    case True
    then obtain i' s' where st: "table_step i s = Inr (i', s')" and ok: "scan_ok s'"
      using table_step_ok[OF True "1.prems"] by blast
    from "1.IH"[OF True st refl ok] obtain s'' where
      "table_loop (i' + 1) s' = Inr s''" "scan_ok s''" by blast
    with True st show ?thesis
      by (subst table_loop.simps) simp
  next
    case False
    with "1.prems" show ?thesis
      by (subst table_loop.simps) simp
  qed
qed

lemma fix_tables_ok: "\<exists>r. fix_tables src = Inr r"
proof (cases "includes_str src ''|'' \<and> includes_str src ''---''")
  case False
  then show ?thesis by (auto simp: fix_tables_def)
next
  case gate: True
  let ?s0 = "\<lparr>lines = split src ''\<newline>'', inTable = False,
               tableStartIndex = -1, hasHeader = False, hasDivider = False\<rparr>"
  have "scan_ok ?s0" by (simp add: scan_ok_def)
  then obtain s where l: "table_loop 0 ?s0 = Inr s" and ok: "scan_ok s"
    using table_loop_ok by blast
  show ?thesis
  proof (cases "inTable s \<and> hasHeader s \<and> \<not> hasDivider s")
    case True
    then obtain d where "make_divider (lines s) (tableStartIndex s) = Inr d"
      using make_divider_ok[OF ok] by blast
    with True l gate show ?thesis
      by (simp add: fix_tables_def)
  next
    case False
    with l gate show ?thesis
      by (auto simp: fix_tables_def)
  qed
qed

section \<open>The table repair on a table without separator\<close>

subsection \<open>Splitting a joined text\<close>

lemma split_from_no_sep:
  "c \<notin> set x \<Longrightarrow> split_from [c] acc x = [acc @ x]"
  by (induction x arbitrary: acc) (auto simp: startsWith_def)

lemma split_from_sep:
  "c \<notin> set x \<Longrightarrow> split_from [c] acc (x @ c # rest) = (acc @ x) # split_from [c] [] rest"
  by (induction x arbitrary: acc) (auto simp: startsWith_def)

lemma split_join:
  "ls \<noteq> [] \<Longrightarrow> \<forall>l\<in>set ls. c \<notin> set l \<Longrightarrow> split (join ls [c]) [c] = ls"
proof (induction ls)
  case Nil
  then show ?case by simp
next
  case (Cons l ls)
  show ?case
  proof (cases ls)
    case Nil
    with Cons.prems show ?thesis
      by (simp add: split_def split_from_no_sep)
  next
    case (Cons l' ls')
    with Cons.IH Cons.prems have "split_from [c] [] (join ls [c]) = ls"
      by (simp add: split_def)
    with Cons Cons.prems show ?thesis
      by (simp add: split_def split_from_sep)
  qed
qed

lemma includes_str_char: "includes_str s [c] = (c \<in> set s)"
  by (induction s) (auto simp: startsWith_def)

lemma set_join: "l \<in> set ls \<Longrightarrow> set l \<subseteq> set (join ls sep)"
  by (induction ls sep rule: join.induct) auto

lemma length_split_from: "length (split_from [c] acc s) = Suc (count_list s c)"
  by (induction s arbitrary: acc) (auto simp: startsWith_def)

lemma divider_row_cells:
  "divider_row header = ''|'' @ repeat '' --- |'' (max 1 (count_list header CHR ''|'' - 1))"
proof -
  let ?n = "count_list header CHR ''|''"
  have cells: "int (length (split header ''|'')) - 2 = int ?n - 1"
    by (simp add: split_def length_split_from)
  have "(if int ?n - 1 > 0 then nat (int ?n - 1) else 1) = max 1 (?n - 1)"
    by (auto simp: max_def nat_diff_distrib')
  then show ?thesis
    unfolding divider_row_def Let_def cells by simp
qed

lemma is_pipe_row_Nil [simp]: "\<not> is_pipe_row []"
  by (simp add: is_pipe_row_def startsWith_def)

lemma is_pipe_row_has_pipe: "is_pipe_row (trim h) \<Longrightarrow> CHR ''|'' \<in> set h"
proof -
  assume "is_pipe_row (trim h)"
  then have "take 1 (trim h) = ''|''"
    by (simp add: is_pipe_row_def startsWith_def)
  then have "CHR ''|'' \<in> set (take 1 (trim h))"
    by simp
  then have "CHR ''|'' \<in> set (trim h)"
    by (rule in_set_takeD)
  then have "CHR ''|'' \<in> set (rev (dropWhile is_space h))"
    unfolding trim_def using set_dropWhileD by fastforce
  then show ?thesis
    using set_dropWhileD by fastforce
qed

subsection \<open>Steps of the table loop\<close>

lemma skip_outside:
  "\<not> inTable s \<Longrightarrow> lines s = front @ mid @ behind \<Longrightarrow> \<forall>l\<in>set mid. \<not> is_pipe_row (trim l) \<Longrightarrow>
   table_loop (length front) s = table_loop (length front + length mid) s"
proof (induction mid arbitrary: front)
  case Nil
  then show ?case by simp
next
  case (Cons l mid)
  have st: "table_step (length front) s = Inr (length front, s)"
    using Cons.prems by (simp add: table_step_def)
  have "table_loop (length front) s = table_loop (length (front @ [l])) s"
    using Cons.prems(2) st by (subst table_loop.simps) simp
  also have "\<dots> = table_loop (length (front @ [l]) + length mid) s"
    using Cons.prems by (intro Cons.IH) simp_all
  finally show ?case by simp
qed

lemma skip_rows:
  "inTable s \<Longrightarrow> tableStartIndex s + 1 < int (length front) \<Longrightarrow> lines s = front @ mid @ behind \<Longrightarrow>
   \<forall>l\<in>set mid. is_pipe_row (trim l) \<Longrightarrow>
   table_loop (length front) s = table_loop (length front + length mid) s"
proof (induction mid arbitrary: front)
  case Nil
  then show ?case by simp
next
  case (Cons l mid)
  have "pipe_row_step (length front) (trim l) s = s"
    using Cons.prems(1,2) by (simp add: pipe_row_step_def)
  then have st: "table_step (length front) s = Inr (length front, s)"
    using Cons.prems by (simp add: table_step_def)
  have "table_loop (length front) s = table_loop (length (front @ [l])) s"
    using Cons.prems(3) st by (subst table_loop.simps) simp
  also have "\<dots> = table_loop (length (front @ [l]) + length mid) s"
    using Cons.prems by (intro Cons.IH) simp_all
  finally show ?case by simp
qed

lemma header_step:
  assumes "\<not> inTable s" and "lines s = front @ h # behind" and "is_pipe_row (trim h)"
  shows "table_loop (length front) s =
         table_loop (Suc (length front))
           (s\<lparr>inTable := True, tableStartIndex := int (length front), hasHeader := True\<rparr>)"
proof -
  have "pipe_row_step (length front) (trim h) s =
        s\<lparr>inTable := True, tableStartIndex := int (length front), hasHeader := True\<rparr>"
    using assms(1) by (simp add: pipe_row_step_def)
  then have "table_step (length front) s =
        Inr (length front, s\<lparr>inTable := True, tableStartIndex := int (length front), hasHeader := True\<rparr>)"
    using assms by (simp add: table_step_def)
  then show ?thesis
    using assms(2) by (subst table_loop.simps) simp
qed

lemma first_row_step:
  assumes "inTable s" and "tableStartIndex s + 1 = int (length front)"
    and "lines s = front @ r # behind" and "is_pipe_row (trim r)"
    and "\<not> only_dashes_and_pipes (trim r)"
  shows "table_loop (length front) s = table_loop (Suc (length front)) s"
proof -
  have "pipe_row_step (length front) (trim r) s = s"
    using assms(1,2,5) by (simp add: pipe_row_step_def)
  then have "table_step (length front) s = Inr (length front, s)"
    using assms by (simp add: table_step_def)
  then show ?thesis
    using assms(3) by (subst table_loop.simps) simp
qed

lemma blank_step:
  assumes "inTable s" and "hasHeader s" and "\<not> hasDivider s"
    and "lines s = front @ b # behind" and "trim b = []"
    and "0 \<le> tableStartIndex s" and "nat (tableStartIndex s) < length (lines s)"
  shows "table_loop (length front) s =
         table_loop (length front + 2)
           (s\<lparr>lines := splice_insert (lines s) (nat (tableStartIndex s + 1))
                          (divider_row (lines s ! nat (tableStartIndex s))),
              inTable := False, hasHeader := False, hasDivider := False\<rparr>)"
proof -
  have "end_of_table_step (length front) s =
        Inr (length front + 1,
             s\<lparr>lines := splice_insert (lines s) (nat (tableStartIndex s + 1))
                          (divider_row (lines s ! nat (tableStartIndex s))),
               inTable := False, hasHeader := False, hasDivider := False\<rparr>)"
    using assms(2,3,6,7) by (simp add: end_of_table_step_def make_divider_def)
  then have "table_step (length front) s =
        Inr (length front + 1,
             s\<lparr>lines := splice_insert (lines s) (nat (tableStartIndex s + 1))
                          (divider_row (lines s ! nat (tableStartIndex s))),
               inTable := False, hasHeader := False, hasDivider := False\<rparr>)"
    using assms(1,4,5) by (simp add: table_step_def)
  then show ?thesis
    using assms(4) by (subst table_loop.simps) simp
qed

lemma table_loop_end: "length (lines s) \<le> i \<Longrightarrow> table_loop i s = Inr s"
  by (subst table_loop.simps) simp

lemma splice_after_header:
  "splice_insert (pre @ h # rest) (nat (int (length pre) + 1)) d = pre @ h # d # rest"
proof -
  have "nat (int (length pre) + 1) = Suc (length pre)"
    by simp
  then show ?thesis
    by (simp add: splice_insert_def)
qed

lemma loop_to_rows_end:
  assumes pre: "\<forall>l\<in>set pre. \<not> is_pipe_row (trim l)"
    and h: "is_pipe_row (trim h)"
    and rows: "\<forall>r\<in>set rows. is_pipe_row (trim r)"
    and first: "rows \<noteq> [] \<longrightarrow> \<not> only_dashes_and_pipes (trim (hd rows))"
  shows "table_loop 0 \<lparr>lines = pre @ h # rows @ tail, inTable = False, tableStartIndex = -1,
                        hasHeader = False, hasDivider = False\<rparr> =
         table_loop (Suc (length pre) + length rows)
           \<lparr>lines = pre @ h # rows @ tail, inTable = True, tableStartIndex = int (length pre),
            hasHeader = True, hasDivider = False\<rparr>"
proof -
  let ?L = "pre @ h # rows @ tail"
  let ?s0 = "\<lparr>lines = ?L, inTable = False, tableStartIndex = -1,
              hasHeader = False, hasDivider = False\<rparr>"
  let ?s1 = "\<lparr>lines = ?L, inTable = True, tableStartIndex = int (length pre),
              hasHeader = True, hasDivider = False\<rparr>"
  have "table_loop (length ([]::string list)) ?s0 =
        table_loop (length ([]::string list) + length pre) ?s0"
    using pre by (intro skip_outside[where behind = "h # rows @ tail"]) simp_all
  then have a: "table_loop 0 ?s0 = table_loop (length pre) ?s0"
    by simp
  have b: "table_loop (length pre) ?s0 = table_loop (Suc (length pre)) ?s1"
    using header_step[of ?s0 pre h "rows @ tail"] h by simp
  have c: "table_loop (Suc (length pre)) ?s1 = table_loop (Suc (length pre) + length rows) ?s1"
  proof (cases rows)
    case Nil
    then show ?thesis by simp
  next
    case (Cons r rs)
    have "table_loop (length (pre @ [h])) ?s1 = table_loop (Suc (length (pre @ [h]))) ?s1"
      using Cons rows first
      by (intro first_row_step[where r = r and behind = "rs @ tail"]) simp_all
    moreover have "table_loop (length (pre @ [h, r])) ?s1 =
                   table_loop (length (pre @ [h, r]) + length rs) ?s1"
      using Cons rows
      by (intro skip_rows[where behind = tail]) simp_all
    ultimately show ?thesis
      using Cons by simp
  qed
  from a b c show ?thesis by simp
qed

lemma fix_tables_inserts_divider:
  assumes lines_ok: "\<forall>l\<in>set (pre @ h # rows @ tail). CHR 0x0A \<notin> set l"
    and pre: "\<forall>l\<in>set pre. \<not> is_pipe_row (trim l)"
    and h: "is_pipe_row (trim h)"
    and rows: "\<forall>r\<in>set rows. is_pipe_row (trim r)"
    and first: "rows \<noteq> [] \<longrightarrow> \<not> only_dashes_and_pipes (trim (hd rows))"
    and tail: "tail = [] \<or> (trim (hd tail) = [] \<and> (\<forall>l\<in>set (tl tail). \<not> is_pipe_row (trim l)))"
    and gate: "includes_str (join (pre @ h # rows @ tail) ''\<newline>'') ''---''"
  shows "fix_tables (join (pre @ h # rows @ tail) ''\<newline>'') =
         Inr (join (pre @ h # divider_row h # rows @ tail) ''\<newline>'')"
proof -
  let ?L = "pre @ h # rows @ tail"
  let ?s0 = "\<lparr>lines = ?L, inTable = False, tableStartIndex = -1,
              hasHeader = False, hasDivider = False\<rparr>"
  let ?s1 = "\<lparr>lines = ?L, inTable = True, tableStartIndex = int (length pre),
              hasHeader = True, hasDivider = False\<rparr>"
  let ?k = "Suc (length pre) + length rows"
  have sp: "split (join ?L ''\<newline>'') ''\<newline>'' = ?L"
    using lines_ok by (intro split_join) simp_all
  have "set h \<subseteq> set (join ?L ''\<newline>'')"
    by (rule set_join) simp
  with is_pipe_row_has_pipe[OF h] have pipe: "includes_str (join ?L ''\<newline>'') ''|''"
    by (auto simp: includes_str_char)
  have loop1: "table_loop 0 ?s0 = table_loop ?k ?s1"
    by (rule loop_to_rows_end[OF pre h rows first])
  have hd_at: "?L ! length pre = h"
    by simp
  show ?thesis
  proof (cases tail)
    case Nil
    then have "table_loop ?k ?s1 = Inr ?s1"
      by (intro table_loop_end) simp
    with loop1 have "table_loop 0 ?s0 = Inr ?s1"
      by simp
    moreover have "make_divider ?L (int (length pre)) = Inr (divider_row h)"
      by (simp add: make_divider_def)
    ultimately show ?thesis
      using pipe gate sp Nil
      by (simp add: fix_tables_def splice_after_header)
  next
    case (Cons b post)
    let ?s2 = "\<lparr>lines = pre @ h # divider_row h # rows @ b # post, inTable = False,
                tableStartIndex = int (length pre), hasHeader = False, hasDivider = False\<rparr>"
    from Cons tail have blank: "trim b = []" and post: "\<forall>l\<in>set post. \<not> is_pipe_row (trim l)"
      by simp_all
    have "table_loop (length (pre @ h # rows)) ?s1 =
          table_loop (length (pre @ h # rows) + 2)
            (?s1\<lparr>lines := splice_insert (lines ?s1) (nat (tableStartIndex ?s1 + 1))
                             (divider_row (lines ?s1 ! nat (tableStartIndex ?s1))),
                  inTable := False, hasHeader := False, hasDivider := False\<rparr>)"
      using Cons blank
      by (intro blank_step[where b = b and behind = post]) simp_all
    moreover have "?s1\<lparr>lines := splice_insert (lines ?s1) (nat (tableStartIndex ?s1 + 1))
                             (divider_row (lines ?s1 ! nat (tableStartIndex ?s1))),
                  inTable := False, hasHeader := False, hasDivider := False\<rparr> = ?s2"
      using Cons hd_at by (simp add: splice_after_header)
    ultimately have loop2: "table_loop ?k ?s1 = table_loop (?k + 2) ?s2"
      by simp
    have "table_loop (length (pre @ h # divider_row h # rows @ [b])) ?s2 =
          table_loop (length (pre @ h # divider_row h # rows @ [b]) + length post) ?s2"
      using post by (intro skip_outside[where behind = "[]"]) simp_all
    moreover have "table_loop (length (pre @ h # divider_row h # rows @ [b]) + length post) ?s2 = Inr ?s2"
      by (intro table_loop_end) simp
    ultimately have "table_loop (?k + 2) ?s2 = Inr ?s2"
      by simp
    with loop1 loop2 have "table_loop 0 ?s0 = Inr ?s2"
      by simp
    then show ?thesis
      using pipe gate sp Cons
      by (simp add: fix_tables_def)
  qed
qed

section \<open>What the table step computes\<close>

text \<open>
  The table step described line by line, without loop variables. Outside a table, a line
  that (trimmed) starts and ends with a pipe is the header of a new table; unless the next
  line is a separator row (a pipe row of pipes and dashes only), a separator row made for
  the header is inserted right after it. The table goes on until a blank line or the end
  of the text; its other lines are kept as they are.
\<close>

definition is_separator_row :: "string \<Rightarrow> bool" where
  "is_separator_row l = (is_pipe_row (trim l) \<and> only_dashes_and_pipes (trim l))"

fun repair_tables :: "string list \<Rightarrow> string list"
  and table_body :: "string list \<Rightarrow> string list" where
  "repair_tables [] = []"
| "repair_tables (l # ls) =
     (if is_pipe_row (trim l)
      then (if ls \<noteq> [] \<and> is_separator_row (hd ls)
            then l # table_body ls
            else l # divider_row l # table_body ls)
      else l # repair_tables ls)"
| "table_body [] = []"
| "table_body (l # ls) =
     (if trim l = [] then l # repair_tables ls else l # table_body ls)"

definition final_lines :: "table_scan \<Rightarrow> js_error + string list" where
  "final_lines s =
     (if inTable s \<and> hasHeader s \<and> \<not> hasDivider s then
        (case make_divider (lines s) (tableStartIndex s) of
           Inl e \<Rightarrow> Inl e
         | Inr divider \<Rightarrow> Inr (splice_insert (lines s) (nat (tableStartIndex s + 1)) divider))
      else Inr (lines s))"

definition run_from :: "nat \<Rightarrow> table_scan \<Rightarrow> js_error + string list" where
  "run_from i s = (case table_loop i s of Inl e \<Rightarrow> Inl e | Inr s' \<Rightarrow> final_lines s')"

lemma run_from_step:
  "i < length (lines s) \<Longrightarrow> table_step i s = Inr (i', s') \<Longrightarrow> run_from i s = run_from (Suc i') s'"
  unfolding run_from_def by (subst table_loop.simps) simp

lemma run_from_end:
  "length (lines s) \<le> i \<Longrightarrow> run_from i s = final_lines s"
  unfolding run_from_def by (subst table_loop.simps) simp

lemma fix_tables_run_from:
  "fix_tables x =
     (if includes_str x ''|'' \<and> includes_str x ''---'' then
        (case run_from 0 \<lparr>lines = split x ''\<newline>'', inTable = False, tableStartIndex = -1,
                           hasHeader = False, hasDivider = False\<rparr> of
           Inl e \<Rightarrow> Inl e
         | Inr ls \<Rightarrow> Inr (join ls ''\<newline>''))
      else Inr x)"
  by (simp add: fix_tables_def run_from_def final_lines_def split: sum.split)

lemma splice_insert_append:
  "k \<le> length xs \<Longrightarrow> splice_insert (xs @ ys) k d = splice_insert xs k d @ ys"
  by (simp add: splice_insert_def)

lemma trim_pipe_row_not_blank: "is_pipe_row (trim l) \<Longrightarrow> trim l \<noteq> []"
  by auto


lemma step_outside:
  "\<not> inTable s \<Longrightarrow> \<not> is_pipe_row (trim (lines s ! i)) \<Longrightarrow> table_step i s = Inr (i, s)"
  by (simp add: table_step_def)

lemma step_header:
  "\<not> inTable s \<Longrightarrow> is_pipe_row (trim (lines s ! i)) \<Longrightarrow>
   table_step i s = Inr (i, s\<lparr>inTable := True, tableStartIndex := int i, hasHeader := True\<rparr>)"
  by (simp add: table_step_def pipe_row_step_def)

lemma step_inside:
  "inTable s \<Longrightarrow> tableStartIndex s + 1 < int i \<Longrightarrow> trim (lines s ! i) \<noteq> [] \<Longrightarrow>
   table_step i s = Inr (i, s)"
proof -
  assume a: "inTable s" "tableStartIndex s + 1 < int i" "trim (lines s ! i) \<noteq> []"
  then have "pipe_row_step i (trim (lines s ! i)) s = s"
    by (simp add: pipe_row_step_def)
  with a show ?thesis
    by (simp add: table_step_def Let_def)
qed

lemma step_first_row:
  "inTable s \<Longrightarrow> tableStartIndex s + 1 = int i \<Longrightarrow> trim (lines s ! i) \<noteq> [] \<Longrightarrow>
   table_step i s = Inr (i, if is_separator_row (lines s ! i) then s\<lparr>hasDivider := True\<rparr> else s)"
proof -
  assume a: "inTable s" "tableStartIndex s + 1 = int i" "trim (lines s ! i) \<noteq> []"
  then have "pipe_row_step i (trim (lines s ! i)) s =
        (if only_dashes_and_pipes (trim (lines s ! i)) then s\<lparr>hasDivider := True\<rparr> else s)"
    by (simp add: pipe_row_step_def)
  with a show ?thesis
    by (simp add: table_step_def Let_def is_separator_row_def)
qed

lemma step_blank_insert:
  assumes "inTable s" and "trim (lines s ! i) = []" and "hasHeader s" and "\<not> hasDivider s"
    and "0 \<le> tableStartIndex s" and "nat (tableStartIndex s) < length (lines s)"
  shows "table_step i s =
     Inr (Suc i, s\<lparr>lines := splice_insert (lines s) (nat (tableStartIndex s + 1))
                              (divider_row (lines s ! nat (tableStartIndex s))),
                   inTable := False, hasHeader := False, hasDivider := False\<rparr>)"
  using assms by (simp add: table_step_def end_of_table_step_def make_divider_def)

lemma step_blank_keep:
  assumes "inTable s" and "trim (lines s ! i) = []" and "hasDivider s"
  shows "table_step i s = Inr (i, s\<lparr>inTable := False, hasHeader := False, hasDivider := False\<rparr>)"
  using assms by (simp add: table_step_def end_of_table_step_def)

lemma final_lines_outside: "\<not> inTable s \<Longrightarrow> final_lines s = Inr (lines s)"
  by (simp add: final_lines_def)

lemma final_lines_inside:
  assumes "inTable s" and "hasHeader s" and "0 \<le> tableStartIndex s"
    and "nat (tableStartIndex s) < length (lines s)"
  shows "final_lines s =
     Inr (if hasDivider s then lines s
          else splice_insert (lines s) (nat (tableStartIndex s + 1))
                 (divider_row (lines s ! nat (tableStartIndex s))))"
  using assms by (simp add: final_lines_def make_divider_def)

lemma splice_insert_header:
  "splice_insert (seen @ l # rest) (nat (int (length seen) + 1)) d = seen @ l # d # rest"
proof -
  have "nat (int (length seen) + 1) = Suc (length seen)"
    by simp
  then show ?thesis
    by (simp add: splice_insert_def)
qed

lemma table_loop_repairs:
  "(\<not> inTable s \<longrightarrow> \<not> hasHeader s \<longrightarrow> \<not> hasDivider s \<longrightarrow> lines s = seen @ todo \<longrightarrow>
      run_from (length seen) s = Inr (seen @ repair_tables todo)) \<and>
   (inTable s \<longrightarrow> hasHeader s \<longrightarrow> 0 \<le> tableStartIndex s \<longrightarrow>
      tableStartIndex s + 1 < int (length seen) \<longrightarrow> lines s = seen @ todo \<longrightarrow>
      run_from (length seen) s =
        Inr ((if hasDivider s then seen
              else splice_insert seen (nat (tableStartIndex s + 1))
                     (divider_row (seen ! nat (tableStartIndex s))))
             @ table_body todo))"
proof (induction "length todo" arbitrary: todo seen s rule: less_induct)
  case less
  have IH_out: "\<And>todo' seen' s'. length todo' < length todo \<Longrightarrow> \<not> inTable s' \<Longrightarrow> \<not> hasHeader s' \<Longrightarrow>
      \<not> hasDivider s' \<Longrightarrow> lines s' = seen' @ todo' \<Longrightarrow>
      run_from (length seen') s' = Inr (seen' @ repair_tables todo')"
    using less.hyps by blast
  have IH_in: "\<And>todo' seen' s'. length todo' < length todo \<Longrightarrow> inTable s' \<Longrightarrow> hasHeader s' \<Longrightarrow>
      0 \<le> tableStartIndex s' \<Longrightarrow> tableStartIndex s' + 1 < int (length seen') \<Longrightarrow>
      lines s' = seen' @ todo' \<Longrightarrow>
      run_from (length seen') s' =
        Inr ((if hasDivider s' then seen'
              else splice_insert seen' (nat (tableStartIndex s' + 1))
                     (divider_row (seen' ! nat (tableStartIndex s'))))
             @ table_body todo')"
    using less.hyps by blast
  show ?case
  proof (intro conjI impI)
    assume out: "\<not> inTable s" "\<not> hasHeader s" "\<not> hasDivider s" and ls: "lines s = seen @ todo"
    show "run_from (length seen) s = Inr (seen @ repair_tables todo)"
    proof (cases todo)
      case Nil
      with out ls show ?thesis
        by (simp add: run_from_end final_lines_outside)
    next
      case (Cons l rest)
      have at: "lines s ! length seen = l" and lt: "length seen < length (lines s)"
        using ls Cons by simp_all
      show ?thesis
      proof (cases "is_pipe_row (trim l)")
        case False
        have "run_from (length seen) s = run_from (Suc (length seen)) s"
          using step_outside[of s "length seen"] out(1) at False lt
          by (intro run_from_step) simp_all
        also have "\<dots> = run_from (length (seen @ [l])) s"
          by simp
        also have "\<dots> = Inr ((seen @ [l]) @ repair_tables rest)"
          using out ls Cons by (intro IH_out) simp_all
        finally show ?thesis
          using Cons False by simp
      next
        case True
        define s1 where "s1 = s\<lparr>inTable := True, tableStartIndex := int (length seen), hasHeader := True\<rparr>"
        have s1: "inTable s1" "hasHeader s1" "\<not> hasDivider s1" "tableStartIndex s1 = int (length seen)"
          "lines s1 = seen @ l # rest"
          using out ls Cons by (simp_all add: s1_def)
        have r1: "run_from (length seen) s = run_from (Suc (length seen)) s1"
          using step_header[of s "length seen"] out(1) at True lt
          unfolding s1_def by (intro run_from_step) simp_all
        show ?thesis
        proof (cases rest)
          case Nil
          have "run_from (Suc (length seen)) s1 = final_lines s1"
            using s1(5) Nil by (intro run_from_end) simp
          also have "\<dots> = Inr (seen @ [l, divider_row l])"
            using s1 Nil by (simp add: final_lines_inside splice_insert_header)
          finally show ?thesis
            using r1 Cons Nil True by simp
        next
          case rest: (Cons r rs)
          have at1: "lines s1 ! Suc (length seen) = r" and lt1: "Suc (length seen) < length (lines s1)"
            using s1(5) rest by (simp_all add: nth_append)
          show ?thesis
          proof (cases "trim r = []")
            case blank: True
            define s2 where "s2 = s1\<lparr>lines := seen @ l # divider_row l # r # rs,
                                     inTable := False, hasHeader := False, hasDivider := False\<rparr>"
            have "table_step (Suc (length seen)) s1 = Inr (Suc (Suc (length seen)), s2)"
              using step_blank_insert[of s1 "Suc (length seen)"] s1 at1 blank rest
              by (simp add: s2_def splice_insert_header)
            then have "run_from (Suc (length seen)) s1 = run_from (Suc (Suc (Suc (length seen)))) s2"
              using lt1 by (intro run_from_step)
            also have "\<dots> = run_from (length (seen @ [l, divider_row l, r])) s2"
              by simp
            also have "\<dots> = Inr ((seen @ [l, divider_row l, r]) @ repair_tables rs)"
              using Cons rest by (intro IH_out) (simp_all add: s2_def)
            finally have "run_from (Suc (length seen)) s1 = Inr (seen @ l # divider_row l # r # repair_tables rs)"
              by simp
            moreover have "\<not> is_separator_row r"
              using blank by (simp add: is_separator_row_def)
            ultimately show ?thesis
              using r1 Cons rest True blank by simp
          next
            case nonblank: False
            define s1' where "s1' = (if is_separator_row r then s1\<lparr>hasDivider := True\<rparr> else s1)"
            have s1': "inTable s1'" "hasHeader s1'" "tableStartIndex s1' = int (length seen)"
              "lines s1' = seen @ l # r # rs" "hasDivider s1' = is_separator_row r"
              using s1 rest by (simp_all add: s1'_def)
            have "table_step (Suc (length seen)) s1 = Inr (Suc (length seen), s1')"
              using step_first_row[of s1 "Suc (length seen)"] s1 at1 nonblank
              by (simp add: s1'_def)
            then have "run_from (Suc (length seen)) s1 = run_from (Suc (Suc (length seen))) s1'"
              using lt1 by (intro run_from_step)
            also have "\<dots> = run_from (length (seen @ [l, r])) s1'"
              by simp
            also have "\<dots> = Inr ((if hasDivider s1' then seen @ [l, r]
                  else splice_insert (seen @ [l, r]) (nat (tableStartIndex s1' + 1))
                         (divider_row ((seen @ [l, r]) ! nat (tableStartIndex s1'))))
                 @ table_body rs)"
              using Cons rest s1' by (intro IH_in) simp_all
            also have "\<dots> = Inr ((if is_separator_row r then seen @ [l, r]
                  else seen @ [l, divider_row l, r]) @ table_body rs)"
              using s1'(3,5) splice_insert_header[of seen l "[r]" "divider_row l"] by simp
            finally show ?thesis
              using r1 Cons rest True nonblank by simp
          qed
        qed
      qed
    qed
  next
    assume ins: "inTable s" "hasHeader s" "0 \<le> tableStartIndex s"
      "tableStartIndex s + 1 < int (length seen)" and ls: "lines s = seen @ todo"
    have k: "nat (tableStartIndex s + 1) \<le> length seen" "nat (tableStartIndex s) < length seen"
      using ins(3,4) by simp_all
    let ?fixed = "if hasDivider s then seen
              else splice_insert seen (nat (tableStartIndex s + 1))
                     (divider_row (seen ! nat (tableStartIndex s)))"
    show "run_from (length seen) s = Inr (?fixed @ table_body todo)"
    proof (cases todo)
      case Nil
      have "run_from (length seen) s = final_lines s"
        using ls Nil by (intro run_from_end) simp
      then show ?thesis
        using ins ls Nil k by (simp add: final_lines_inside)
    next
      case (Cons l rest)
      have at: "lines s ! length seen = l" and lt: "length seen < length (lines s)"
        using ls Cons by simp_all
      have hd_at: "lines s ! nat (tableStartIndex s) = seen ! nat (tableStartIndex s)"
        using ls k(2) by (simp add: nth_append)
      show ?thesis
      proof (cases "trim l = []")
        case blank: True
        show ?thesis
        proof (cases "hasDivider s")
          case True
          define s' where "s' = s\<lparr>inTable := False, hasHeader := False, hasDivider := False\<rparr>"
          have "table_step (length seen) s = Inr (length seen, s')"
            using step_blank_keep[of s "length seen"] ins(1) at blank True by (simp add: s'_def)
          then have "run_from (length seen) s = run_from (Suc (length seen)) s'"
            using lt by (intro run_from_step)
          also have "\<dots> = run_from (length (seen @ [l])) s'"
            by simp
          also have "\<dots> = Inr ((seen @ [l]) @ repair_tables rest)"
            using Cons ls by (intro IH_out) (simp_all add: s'_def)
          finally show ?thesis
            using Cons blank True by simp
        next
          case False
          define d where "d = divider_row (seen ! nat (tableStartIndex s))"
          define fixed where "fixed = splice_insert seen (nat (tableStartIndex s + 1)) d"
          define s' where "s' = s\<lparr>lines := fixed @ l # rest,
                                  inTable := False, hasHeader := False, hasDivider := False\<rparr>"
          have len: "length fixed = Suc (length seen)"
            by (simp add: fixed_def)
          have "splice_insert (lines s) (nat (tableStartIndex s + 1))
                  (divider_row (lines s ! nat (tableStartIndex s))) = fixed @ l # rest"
            using ls Cons k(1) hd_at by (simp add: splice_insert_append fixed_def d_def)
          then have "table_step (length seen) s = Inr (Suc (length seen), s')"
            using step_blank_insert[of s "length seen"] ins(1,2,3) at blank False k(2) ls
            by (simp add: s'_def)
          then have "run_from (length seen) s = run_from (Suc (Suc (length seen))) s'"
            using lt by (intro run_from_step)
          also have "\<dots> = run_from (length (fixed @ [l])) s'"
            using len by simp
          also have "\<dots> = Inr ((fixed @ [l]) @ repair_tables rest)"
            using Cons by (intro IH_out) (simp_all add: s'_def)
          finally show ?thesis
            using Cons blank False by (simp add: fixed_def d_def)
        qed
      next
        case nonblank: False
        have "table_step (length seen) s = Inr (length seen, s)"
          using step_inside[of s "length seen"] ins(1,4) at nonblank by simp
        then have "run_from (length seen) s = run_from (Suc (length seen)) s"
          using lt by (intro run_from_step)
        also have "\<dots> = run_from (length (seen @ [l])) s"
          by simp
        also have "\<dots> = Inr ((if hasDivider s then seen @ [l]
              else splice_insert (seen @ [l]) (nat (tableStartIndex s + 1))
                     (divider_row ((seen @ [l]) ! nat (tableStartIndex s))))
             @ table_body rest)"
          using Cons ls ins by (intro IH_in) simp_all
        also have "\<dots> = Inr ((?fixed @ [l]) @ table_body rest)"
          using k by (simp add: splice_insert_append nth_append)
        finally show ?thesis
          using Cons nonblank by simp
      qed
    qed
  qed
qed

lemma fix_tables_repairs:
  "fix_tables x =
     Inr (if includes_str x ''|'' \<and> includes_str x ''---''
          then join (repair_tables (split x ''\<newline>'')) ''\<newline>'' else x)"
proof -
  let ?s0 = "\<lparr>lines = split x ''\<newline>'', inTable = False, tableStartIndex = -1,
              hasHeader = False, hasDivider = False\<rparr>"
  have "run_from (length ([]::string list)) ?s0 = Inr ([] @ repair_tables (split x ''\<newline>''))"
    using table_loop_repairs[of ?s0 "[]" "split x ''\<newline>''"] by simp
  then have "run_from 0 ?s0 = Inr (repair_tables (split x ''\<newline>''))"
    by simp
  then show ?thesis
    by (simp add: fix_tables_run_from)
qed

section \<open>The callbacks that \<^verbatim>\<open>readStream\<close> invokes\<close>

lemma deliver_lines_recorder:
  "deliver_lines recorder ls tr =
   tr @ map (\<lambda>d. Fragment (JSString d))
          (filter (\<lambda>data. data \<noteq> [])
             (map (\<lambda>line. substring line 6) (filter (\<lambda>line. startsWith line ''data: '') ls)))"
  by (induction ls arbitrary: tr) (simp_all add: deliver_line_def recorder_def)

lemma deliver_chunk_recorder:
  "deliver_lines recorder (split chunk ''\<newline>\<newline>'') tr =
   tr @ map (\<lambda>d. Fragment (JSString d)) (payloads chunk)"
  by (simp add: deliver_lines_recorder payloads_def)


lemma replay_append: "replay options (xs @ ys) st = replay options ys (replay options xs st)"
  by (induction options xs st rule: replay.induct) simp_all

lemma deliver_lines_replay:
  "deliver_lines options ls st = replay options (deliver_lines recorder ls []) st"
proof (induction ls arbitrary: st)
  case Nil
  then show ?case by simp
next
  case (Cons l ls)
  have "deliver_lines recorder (l # ls) [] =
        deliver_line recorder l [] @ deliver_lines recorder ls []"
    by (simp add: deliver_lines_recorder)
  moreover have "replay options (deliver_line recorder l []) st = deliver_line options l st"
    by (simp add: deliver_line_def recorder_def Let_def split: option.split)
  ultimately show ?case
    using Cons.IH by (simp add: replay_append)
qed

lemma readStream_recorder_append:
  "readStream recorder reads tr = tr @ readStream recorder reads []"
proof (induction reads arbitrary: tr)
  case Nil
  then show ?case by (simp add: finally_clause_def recorder_def)
next
  case (Cons r reads)
  show ?case
  proof (cases r)
    case (Value chunk)
    have "readStream recorder (r # reads) tr =
          readStream recorder reads (tr @ map (\<lambda>d. Fragment (JSString d)) (payloads chunk))"
      using Value by (simp add: deliver_chunk_recorder)
    also have "\<dots> = (tr @ map (\<lambda>d. Fragment (JSString d)) (payloads chunk)) @ readStream recorder reads []"
      by (rule Cons.IH)
    also have "\<dots> = tr @ readStream recorder reads (map (\<lambda>d. Fragment (JSString d)) (payloads chunk))"
      using Cons.IH[of "map (\<lambda>d. Fragment (JSString d)) (payloads chunk)"] by simp
    also have "\<dots> = tr @ readStream recorder (r # reads) []"
      using Value by (simp add: deliver_chunk_recorder)
    finally show ?thesis .
  next
    case (Rejected e)
    then show ?thesis by (simp add: finally_clause_def catch_clause_def recorder_def)
  qed
qed

lemma readStream_replay:
  "readStream options reads st = replay options (readStream recorder reads []) st"
proof (induction reads arbitrary: st)
  case Nil
  have "finally_clause recorder [] = [Completed]"
    by (simp add: finally_clause_def recorder_def)
  then show ?case by simp
next
  case (Cons r reads)
  show ?case
  proof (cases r)
    case (Value chunk)
    have "readStream recorder (r # reads) [] =
          deliver_lines recorder (split chunk ''\<newline>\<newline>'') [] @ readStream recorder reads []"
      using Value readStream_recorder_append[of reads "deliver_lines recorder (split chunk ''\<newline>\<newline>'') []"]
      by simp
    then show ?thesis
      using Value Cons.IH deliver_lines_replay[of options "split chunk ''\<newline>\<newline>''" st]
      by (simp add: replay_append)
  next
    case (Rejected e)
    have "finally_clause recorder (catch_clause recorder e []) = [Failed e, Completed]"
      by (simp add: finally_clause_def catch_clause_def recorder_def)
    with Rejected show ?thesis
      by simp
  qed
qed

lemma readStream_readChunks:
  "readStream options (map Value chunks @ rest) st = readStream options rest (readChunks options chunks st)"
  by (induction chunks arbitrary: st) simp_all

section \<open>Facts about the component\<close>

lemma trim_Nil [simp]: "trim [] = []"
  by (simp add: trim_def)

text \<open>
  Called with a string, as \<^const>\<open>deliver_line\<close> calls it, \<^verbatim>\<open>onChunk\<close> appends the text
  \<^verbatim>\<open>undefined\<close>, whatever the string is.
\<close>

lemma Chat_onChunk_string:
  "Chat_onChunk parse (JSString d) st = st\<lparr>streamingMessage := streamingMessage st @ ''undefined''\<rparr>"
  by (simp add: Chat_onChunk_def event_data_def JSON_parse_def concat_data_def)

text \<open>
  Called with a \<^verbatim>\<open>MessageEvent\<close> whose data is a payload other than the sentinel,
  \<^verbatim>\<open>onChunk\<close> appends the payload itself when it is not JSON, and the decoded value when
  it is.
\<close>

lemma Chat_onChunk_message_event:
  assumes "d \<noteq> ''[DONE]''"
  shows "(parse d = None \<longrightarrow>
            Chat_onChunk parse (MessageEvent d) st = st\<lparr>streamingMessage := streamingMessage st @ d\<rparr>) \<and>
         (\<forall>parsedData. parse d = Some parsedData \<longrightarrow>
            Chat_onChunk parse (MessageEvent d) st =
              st\<lparr>streamingMessage := streamingMessage st @ js_to_string parsedData\<rparr>) \<and>
         (\<forall>s. parse d = Some (JString s) \<longrightarrow>
            Chat_onChunk parse (MessageEvent d) st = st\<lparr>streamingMessage := streamingMessage st @ s\<rparr>)"
  using assms by (simp add: Chat_onChunk_def event_data_def JSON_parse_def concat_data_def)

text \<open>
  \<^verbatim>\<open>handleStopStreaming\<close> on its own: when the draft is not blank (not empty after
  trimming), it appends one assistant entry whose content is the sanitized draft, clears
  \<^verbatim>\<open>isTyping\<close> and leaves the draft untouched, whatever \<^verbatim>\<open>cancelStreamingResponse\<close> does to
  the transport.
\<close>

lemma handleStopStreaming_salvages_draft:
  assumes "trim (streamingMessage st) \<noteq> []"
  shows "handleStopStreaming cancelStreamingResponse now stamp chatId (st, tr) =
     (st\<lparr>isTyping := False,
         localMessages := localMessages st @
           [\<lparr>message_id = now, chat_id = chatId, role = Assistant,
             content = sanitizeMarkdown (streamingMessage st), created_at = stamp\<rparr>]\<rparr>,
      cancelStreamingResponse tr)"
proof -
  from assms have "streamingMessage st \<noteq> []"
    by auto
  with assms show ?thesis
    by (simp add: handleStopStreaming_def Let_def)
qed

lemma deliver_data_line:
  "d \<noteq> [] \<Longrightarrow>
   deliver_line (streamingOptions parse captured now stamp chatId) (''data: '' @ d) st =
     st\<lparr>streamingMessage := streamingMessage st @ ''undefined''\<rparr>"
  by (simp add: deliver_line_def streamingOptions_def startsWith_def substring_def
      Chat_onChunk_string)

lemma sanitize_undefined3:
  "sanitizeMarkdown ''undefinedundefinedundefined'' = ''undefinedundefinedundefined''"
  by code_simp

lemma trim_undefined3:
  "trim ''undefinedundefinedundefined'' = ''undefinedundefinedundefined''"
  by code_simp

lemma provisionalEntries_at_most_one: "length (provisionalEntries st) \<le> 1"
  by (simp add: provisionalEntries_def)

section \<open>The properties\<close>

text \<open>
  C1, as stated, fails. The specification says that a second streaming send for a chat, started
  while the first is in flight, is refused with a \<^verbatim>\<open>StreamAlreadyActive\<close> error. Here chat 7
  already has a request in flight when the second call is made, and the second call returns
  its placeholder message like the first; both requests are in flight afterwards.
\<close>

theorem second_stream_start_succeeds:
  "sendMessage 7 \<lparr>form_role = User, form_content = ''first''\<rparr> (Some recorder)
     \<lparr>post = Inl (NetworkError ''unused''),
      fetch = Inr \<lparr>ok = True, status = 200, body = Some [Value ''data: one\<newline>\<newline>'']\<rparr>\<rparr>
     ''t1'' \<lparr>inFlight = []\<rparr> =
   (Inr \<lparr>message_id = -1, chat_id = 7, role = Assistant, content = [], created_at = ''t1''\<rparr>,
    \<lparr>inFlight = [(7, [Value ''data: one\<newline>\<newline>''])]\<rparr>) \<and>
   sendMessage 7 \<lparr>form_role = User, form_content = ''second''\<rparr> (Some recorder)
     \<lparr>post = Inl (NetworkError ''unused''),
      fetch = Inr \<lparr>ok = True, status = 200, body = Some [Value ''data: two\<newline>\<newline>'']\<rparr>\<rparr>
     ''t2'' \<lparr>inFlight = [(7, [Value ''data: one\<newline>\<newline>''])]\<rparr> =
   (Inr \<lparr>message_id = -1, chat_id = 7, role = Assistant, content = [], created_at = ''t2''\<rparr>,
    \<lparr>inFlight = [(7, [Value ''data: one\<newline>\<newline>'']), (7, [Value ''data: two\<newline>\<newline>''])]\<rparr>)"
  by (simp add: sendMessage_def placeholderMessage_def recorder_def)

text \<open>
  C1, as the code has it. \<^verbatim>\<open>sendMessage\<close> makes no check for a stream in flight: whenever
  the server answers both requests with an OK status and a body, the first and the second
  streaming send for the same chat each return the placeholder message, and both response
  bodies are in flight afterwards. The only errors the function raises are a rejection of
  the request, a server error status and a missing body (the constructors of
  \<^typ>\<open>js_error\<close>). The component has one draft and renders one block for it, so in every
  state at most one provisional assistant entry is shown.
\<close>

theorem sendMessage_ignores_active_stream:
  assumes "streaming options"
    and "fetch net1 = Inr response1" and "ok response1" and "body response1 = Some reader1"
    and "fetch net2 = Inr response2" and "ok response2" and "body response2 = Some reader2"
  shows "sendMessage chatId message1 (Some options) net1 now1 tr =
           (Inr (placeholderMessage chatId now1), tr\<lparr>inFlight := inFlight tr @ [(chatId, reader1)]\<rparr>) \<and>
         sendMessage chatId message2 (Some options) net2 now2
             (tr\<lparr>inFlight := inFlight tr @ [(chatId, reader1)]\<rparr>) =
           (Inr (placeholderMessage chatId now2),
            tr\<lparr>inFlight := inFlight tr @ [(chatId, reader1), (chatId, reader2)]\<rparr>) \<and>
         length (provisionalEntries st) \<le> 1"
  using assms provisionalEntries_at_most_one[of st]
  by (simp add: sendMessage_def)

text \<open>
  The same at a concrete input: two streaming sends for chat 7.
\<close>

theorem sendMessage_ignores_active_stream_witness:
  "sendMessage 7 \<lparr>form_role = User, form_content = ''first''\<rparr> (Some recorder)
     \<lparr>post = Inl (NetworkError ''unused''),
      fetch = Inr \<lparr>ok = True, status = 200, body = Some [Value ''data: one\<newline>\<newline>'']\<rparr>\<rparr>
     ''t1'' \<lparr>inFlight = []\<rparr> =
   (Inr (placeholderMessage 7 ''t1''), \<lparr>inFlight = [(7, [Value ''data: one\<newline>\<newline>''])]\<rparr>) \<and>
   sendMessage 7 \<lparr>form_role = User, form_content = ''second''\<rparr> (Some recorder)
     \<lparr>post = Inl (NetworkError ''unused''),
      fetch = Inr \<lparr>ok = True, status = 200, body = Some [Value ''data: two\<newline>\<newline>'']\<rparr>\<rparr>
     ''t2'' \<lparr>inFlight = [(7, [Value ''data: one\<newline>\<newline>''])]\<rparr> =
   (Inr (placeholderMessage 7 ''t2''),
    \<lparr>inFlight = [(7, [Value ''data: one\<newline>\<newline>'']), (7, [Value ''data: two\<newline>\<newline>''])]\<rparr>) \<and>
   length (provisionalEntries
     \<lparr>isTyping = True, streamingEnabled = True, streamingMessage = ''onetwo'',
      localMessages = [], refetchRequests = 0\<rparr>) \<le> 1"
  using sendMessage_ignores_active_stream[of recorder
      "\<lparr>post = Inl (NetworkError ''unused''),
      fetch = Inr \<lparr>ok = True, status = 200, body = Some [Value ''data: one\<newline>\<newline>'']\<rparr>\<rparr>"
      "\<lparr>ok = True, status = 200, body = Some [Value ''data: one\<newline>\<newline>'']\<rparr>"
      "[Value ''data: one\<newline>\<newline>'']"
      "\<lparr>post = Inl (NetworkError ''unused''),
      fetch = Inr \<lparr>ok = True, status = 200, body = Some [Value ''data: two\<newline>\<newline>'']\<rparr>\<rparr>"
      "\<lparr>ok = True, status = 200, body = Some [Value ''data: two\<newline>\<newline>'']\<rparr>"
      "[Value ''data: two\<newline>\<newline>'']"
      7 "\<lparr>form_role = User, form_content = ''first''\<rparr>" "''t1''" "\<lparr>inFlight = []\<rparr>"
      "\<lparr>form_role = User, form_content = ''second''\<rparr>" "''t2''"
      "\<lparr>isTyping = True, streamingEnabled = True, streamingMessage = ''onetwo'',
      localMessages = [], refetchRequests = 0\<rparr>"]
  by (simp add: recorder_def)

text \<open>
  C2, as stated, fails. The specification says that a refetched list shorter than the
  local view leaves the local view unchanged. Here the server had returned the empty list
  before; the local view holds the optimistic user message and a locally committed
  assistant entry; the refetch returns the persisted user message only. The fetched list
  has changed, so the effect runs, and the local view is replaced by the shorter list.
\<close>

theorem syncLocalMessages_shorter_replaces:
  "length [\<lparr>message_id = 1, chat_id = 7, role = User, content = ''question'', created_at = ''t1''\<rparr>]
     < length (localMessages
         \<lparr>isTyping = False, streamingEnabled = True, streamingMessage = ''partial answer'',
          localMessages =
            [\<lparr>message_id = 1700000000000, chat_id = 7, role = User, content = ''question'', created_at = ''t1''\<rparr>,
             \<lparr>message_id = 1700000000001, chat_id = 7, role = Assistant, content = ''partial answer'', created_at = ''t2''\<rparr>],
          refetchRequests = 1\<rparr>) \<and>
   localMessages
     (syncLocalMessages (Some [])
        [\<lparr>message_id = 1, chat_id = 7, role = User, content = ''question'', created_at = ''t1''\<rparr>]
        \<lparr>isTyping = False, streamingEnabled = True, streamingMessage = ''partial answer'',
         localMessages =
           [\<lparr>message_id = 1700000000000, chat_id = 7, role = User, content = ''question'', created_at = ''t1''\<rparr>,
            \<lparr>message_id = 1700000000001, chat_id = 7, role = Assistant, content = ''partial answer'', created_at = ''t2''\<rparr>],
         refetchRequests = 1\<rparr>)
   = [\<lparr>message_id = 1, chat_id = 7, role = User, content = ''question'', created_at = ''t1''\<rparr>]"
  by (simp add: syncLocalMessages_def)

text \<open>
  C2, as the code has it. The local view is kept when the refetched list is empty, and
  when it is equal to the list fetched before (the effect does not run again). A refetched
  list that is not empty and differs from the list fetched before replaces the local view,
  whatever its length.
\<close>

theorem syncLocalMessages_keeps_on_empty:
  "(messages = [] \<longrightarrow> syncLocalMessages previous messages st = st) \<and>
   (previous = Some messages \<longrightarrow> syncLocalMessages previous messages st = st) \<and>
   (messages \<noteq> [] \<and> previous \<noteq> Some messages \<longrightarrow>
      syncLocalMessages previous messages st = st\<lparr>localMessages := messages\<rparr>)"
  by (simp add: syncLocalMessages_def)

text \<open>
  The same at concrete inputs. An empty refetch leaves a view with one optimistic
  message as it is. A refetch that returns the one persisted message again leaves the
  view with that message and an optimistic one as it is. A refetch that returns one
  message after the empty list replaces a view of two local messages.
\<close>

theorem syncLocalMessages_keeps_on_empty_witness:
  "syncLocalMessages None []
     \<lparr>isTyping = True, streamingEnabled = True, streamingMessage = [],
      localMessages = [\<lparr>message_id = 1700000000000, chat_id = 7, role = User, content = ''hi'', created_at = ''t''\<rparr>],
      refetchRequests = 0\<rparr>
   = \<lparr>isTyping = True, streamingEnabled = True, streamingMessage = [],
      localMessages = [\<lparr>message_id = 1700000000000, chat_id = 7, role = User, content = ''hi'', created_at = ''t''\<rparr>],
      refetchRequests = 0\<rparr> \<and>
   syncLocalMessages
     (Some [\<lparr>message_id = 1, chat_id = 7, role = User, content = ''hi'', created_at = ''t''\<rparr>])
     [\<lparr>message_id = 1, chat_id = 7, role = User, content = ''hi'', created_at = ''t''\<rparr>]
     \<lparr>isTyping = True, streamingEnabled = True, streamingMessage = [],
      localMessages =
        [\<lparr>message_id = 1, chat_id = 7, role = User, content = ''hi'', created_at = ''t''\<rparr>,
         \<lparr>message_id = 1700000000000, chat_id = 7, role = User, content = ''more'', created_at = ''t2''\<rparr>],
      refetchRequests = 0\<rparr>
   = \<lparr>isTyping = True, streamingEnabled = True, streamingMessage = [],
      localMessages =
        [\<lparr>message_id = 1, chat_id = 7, role = User, content = ''hi'', created_at = ''t''\<rparr>,
         \<lparr>message_id = 1700000000000, chat_id = 7, role = User, content = ''more'', created_at = ''t2''\<rparr>],
      refetchRequests = 0\<rparr> \<and>
   localMessages (syncLocalMessages (Some [])
     [\<lparr>message_id = 1, chat_id = 7, role = User, content = ''hi'', created_at = ''t''\<rparr>]
     \<lparr>isTyping = False, streamingEnabled = True, streamingMessage = [],
      localMessages =
        [\<lparr>message_id = 1700000000000, chat_id = 7, role = User, content = ''hi'', created_at = ''t''\<rparr>,
         \<lparr>message_id = 1700000000001, chat_id = 7, role = Assistant, content = ''yo'', created_at = ''t2''\<rparr>],
      refetchRequests = 0\<rparr>)
   = [\<lparr>message_id = 1, chat_id = 7, role = User, content = ''hi'', created_at = ''t''\<rparr>]"
  using syncLocalMessages_keeps_on_empty[of "[]" None
      "\<lparr>isTyping = True, streamingEnabled = True, streamingMessage = [],
      localMessages = [\<lparr>message_id = 1700000000000, chat_id = 7, role = User, content = ''hi'', created_at = ''t''\<rparr>],
      refetchRequests = 0\<rparr>"]
    syncLocalMessages_keeps_on_empty[of
      "[\<lparr>message_id = 1, chat_id = 7, role = User, content = ''hi'', created_at = ''t''\<rparr>]"
      "Some [\<lparr>message_id = 1, chat_id = 7, role = User, content = ''hi'', created_at = ''t''\<rparr>]"
      "\<lparr>isTyping = True, streamingEnabled = True, streamingMessage = [],
      localMessages =
        [\<lparr>message_id = 1, chat_id = 7, role = User, content = ''hi'', created_at = ''t''\<rparr>,
         \<lparr>message_id = 1700000000000, chat_id = 7, role = User, content = ''more'', created_at = ''t2''\<rparr>],
      refetchRequests = 0\<rparr>"]
    syncLocalMessages_keeps_on_empty[of
      "[\<lparr>message_id = 1, chat_id = 7, role = User, content = ''hi'', created_at = ''t''\<rparr>]"
      "Some []"
      "\<lparr>isTyping = False, streamingEnabled = True, streamingMessage = [],
      localMessages =
        [\<lparr>message_id = 1700000000000, chat_id = 7, role = User, content = ''hi'', created_at = ''t''\<rparr>,
         \<lparr>message_id = 1700000000001, chat_id = 7, role = Assistant, content = ''yo'', created_at = ''t2''\<rparr>],
      refetchRequests = 0\<rparr>"]
  by simp

text \<open>
  C3, as stated, fails. The specification says that a header row followed by a blank
  line gets a separator row. The table repair only runs when the content contains both a
  pipe and three dashes in a row (\<^verbatim>\<open>hasTableStart\<close>); the text of the specification's
  example contains no dashes and comes back unchanged.
\<close>

theorem sanitizeMarkdown_needs_dashes:
  "sanitizeMarkdown ''| A | B |\<newline>\<newline>'' = ''| A | B |\<newline>\<newline>''"
  by code_simp

text \<open>
  C3, as the code has it. For every input, the sanitizer's result is its code block
  pass applied to the outcome of the table step, and the table step is this: a text that
  lacks a pipe or lacks three dashes in a row is left alone; in any other text, every
  table (from a pipe row outside a table to the next blank line or the end of the text)
  whose header is not directly followed by a separator row gets a separator row inserted
  immediately after its header, and nothing else changes (\<^const>\<open>repair_tables\<close>). The
  separator has one dash cell per pipe of the header but one, and at least one cell. In
  particular a text without three dashes in a row is never table-repaired; and a text with
  them whose lines are \<^verbatim>\<open>pre\<close> (no pipe rows), a header \<^verbatim>\<open>h\<close>, further pipe rows \<^verbatim>\<open>rows\<close>
  of which the first is not a separator, and then the end of the text or a blank line
  followed by lines that are not pipe rows, has the separator inserted after \<^verbatim>\<open>h\<close>.
\<close>

theorem sanitizeMarkdown_inserts_separator:
  "sanitizeMarkdown x =
     replace_code_blocks
       (if includes_str x ''|'' \<and> includes_str x ''---''
        then join (repair_tables (split x ''\<newline>'')) ''\<newline>'' else x) \<and>
   (\<not> includes_str x ''---'' \<longrightarrow> sanitizeMarkdown x = replace_code_blocks x) \<and>
   divider_row h = ''|'' @ repeat '' --- |'' (max 1 (count_list h CHR ''|'' - 1)) \<and>
   ((\<forall>l\<in>set (pre @ h # rows @ tail). CHR 0x0A \<notin> set l) \<and>
    (\<forall>l\<in>set pre. \<not> is_pipe_row (trim l)) \<and>
    is_pipe_row (trim h) \<and>
    (\<forall>r\<in>set rows. is_pipe_row (trim r)) \<and>
    (rows \<noteq> [] \<longrightarrow> \<not> only_dashes_and_pipes (trim (hd rows))) \<and>
    (tail = [] \<or> (trim (hd tail) = [] \<and> (\<forall>l\<in>set (tl tail). \<not> is_pipe_row (trim l)))) \<and>
    includes_str (join (pre @ h # rows @ tail) ''\<newline>'') ''---'' \<longrightarrow>
    sanitizeMarkdown (join (pre @ h # rows @ tail) ''\<newline>'') =
      replace_code_blocks (join (pre @ h # divider_row h # rows @ tail) ''\<newline>''))"
proof (intro conjI impI)
  show general: "sanitizeMarkdown x =
     replace_code_blocks
       (if includes_str x ''|'' \<and> includes_str x ''---''
        then join (repair_tables (split x ''\<newline>'')) ''\<newline>'' else x)"
    by (cases "x = []")
       (simp_all add: sanitizeMarkdown_def sanitize_try_def catch_fallback_def fix_tables_repairs)
  show "sanitizeMarkdown x = replace_code_blocks x" if "\<not> includes_str x ''---''"
    using general that by simp
  show "divider_row h = ''|'' @ repeat '' --- |'' (max 1 (count_list h CHR ''|'' - 1))"
    by (rule divider_row_cells)
  show "sanitizeMarkdown (join (pre @ h # rows @ tail) ''\<newline>'') =
      replace_code_blocks (join (pre @ h # divider_row h # rows @ tail) ''\<newline>'')"
    if shape: "(\<forall>l\<in>set (pre @ h # rows @ tail). CHR 0x0A \<notin> set l) \<and>
    (\<forall>l\<in>set pre. \<not> is_pipe_row (trim l)) \<and>
    is_pipe_row (trim h) \<and>
    (\<forall>r\<in>set rows. is_pipe_row (trim r)) \<and>
    (rows \<noteq> [] \<longrightarrow> \<not> only_dashes_and_pipes (trim (hd rows))) \<and>
    (tail = [] \<or> (trim (hd tail) = [] \<and> (\<forall>l\<in>set (tl tail). \<not> is_pipe_row (trim l)))) \<and>
    includes_str (join (pre @ h # rows @ tail) ''\<newline>'') ''---''"
  proof -
    have "set h \<subseteq> set (join (pre @ h # rows @ tail) ''\<newline>'')"
      by (rule set_join) simp
    moreover have "CHR ''|'' \<in> set h"
      using shape by (intro is_pipe_row_has_pipe) simp
    ultimately have "join (pre @ h # rows @ tail) ''\<newline>'' \<noteq> []"
      by auto
    moreover have "fix_tables (join (pre @ h # rows @ tail) ''\<newline>'') =
         Inr (join (pre @ h # divider_row h # rows @ tail) ''\<newline>'')"
      using shape by (intro fix_tables_inserts_divider) simp_all
    ultimately show ?thesis
      by (simp add: sanitizeMarkdown_def sanitize_try_def catch_fallback_def)
  qed
qed

text \<open>
  The same at concrete inputs. The header \<^verbatim>\<open>| A | B |\<close>, a blank line and a line of three
  dashes: the separator \<^verbatim>\<open>| --- | --- |\<close> is inserted between the header and the blank
  line. Two tables, each a header followed by a blank line, and a line of three dashes:
  both get their separator. The header and the blank line alone: nothing is inserted.
\<close>

theorem sanitizeMarkdown_inserts_separator_witness:
  "sanitizeMarkdown ''| A | B |\<newline>\<newline>---'' = ''| A | B |\<newline>| --- | --- |\<newline>\<newline>---'' \<and>
   sanitizeMarkdown ''| A |\<newline>\<newline>| B | C |\<newline>\<newline>---'' =
     ''| A |\<newline>| --- |\<newline>\<newline>| B | C |\<newline>| --- | --- |\<newline>\<newline>---'' \<and>
   sanitizeMarkdown ''| A | B |\<newline>'' = ''| A | B |\<newline>''"
proof (intro conjI)
  have ev: "replace_code_blocks (join ([] @ ''| A | B |'' # divider_row ''| A | B |'' # [] @ ['''', ''---'']) ''\<newline>'')
        = ''| A | B |\<newline>| --- | --- |\<newline>\<newline>---''"
    by code_simp
  have j: "join ([] @ ''| A | B |'' # [] @ ['''', ''---'']) ''\<newline>'' = ''| A | B |\<newline>\<newline>---''"
    by code_simp
  have q1: "\<forall>l\<in>set ([] @ ''| A | B |'' # [] @ ['''', ''---'']). CHR 0x0A \<notin> set l"
    by simp
  have q2: "\<forall>l\<in>set ([]::string list). \<not> is_pipe_row (trim l)"
    by simp
  have q3: "is_pipe_row (trim ''| A | B |'')"
    by code_simp
  have q4: "\<forall>r\<in>set ([]::string list). is_pipe_row (trim r)"
    by simp
  have q5: "([]::string list) \<noteq> [] \<longrightarrow> \<not> only_dashes_and_pipes (trim (hd []))"
    by simp
  have q6: "['''', ''---''] = [] \<or>
      (trim (hd ['''', ''---'']) = [] \<and> (\<forall>l\<in>set (tl ['''', ''---'']). \<not> is_pipe_row (trim l)))"
    by code_simp
  have q7: "includes_str (join ([] @ ''| A | B |'' # [] @ ['''', ''---'']) ''\<newline>'') ''---''"
    by code_simp
  note shape = sanitizeMarkdown_inserts_separator[of "''x''" "''| A | B |''" "[]" "[]" "['''', ''---'']",
      THEN conjunct2, THEN conjunct2, THEN conjunct2]
  from shape q1 q2 q3 q4 q5 q6 q7
  have "sanitizeMarkdown (join ([] @ ''| A | B |'' # [] @ ['''', ''---'']) ''\<newline>'') =
      replace_code_blocks (join ([] @ ''| A | B |'' # divider_row ''| A | B |'' # [] @ ['''', ''---'']) ''\<newline>'')"
    by blast
  then show "sanitizeMarkdown ''| A | B |\<newline>\<newline>---'' = ''| A | B |\<newline>| --- | --- |\<newline>\<newline>---''"
    unfolding ev j .
next
  have ev2: "replace_code_blocks
       (if includes_str ''| A |\<newline>\<newline>| B | C |\<newline>\<newline>---'' ''|'' \<and>
           includes_str ''| A |\<newline>\<newline>| B | C |\<newline>\<newline>---'' ''---''
        then join (repair_tables (split ''| A |\<newline>\<newline>| B | C |\<newline>\<newline>---'' ''\<newline>'')) ''\<newline>''
        else ''| A |\<newline>\<newline>| B | C |\<newline>\<newline>---'') =
     ''| A |\<newline>| --- |\<newline>\<newline>| B | C |\<newline>| --- | --- |\<newline>\<newline>---''"
    by code_simp
  from sanitizeMarkdown_inserts_separator[of "''| A |\<newline>\<newline>| B | C |\<newline>\<newline>---''" "[]" "[]" "[]" "[]"]
  have "sanitizeMarkdown ''| A |\<newline>\<newline>| B | C |\<newline>\<newline>---'' =
     replace_code_blocks
       (if includes_str ''| A |\<newline>\<newline>| B | C |\<newline>\<newline>---'' ''|'' \<and>
           includes_str ''| A |\<newline>\<newline>| B | C |\<newline>\<newline>---'' ''---''
        then join (repair_tables (split ''| A |\<newline>\<newline>| B | C |\<newline>\<newline>---'' ''\<newline>'')) ''\<newline>''
        else ''| A |\<newline>\<newline>| B | C |\<newline>\<newline>---'')"
    by (rule conjunct1)
  then show "sanitizeMarkdown ''| A |\<newline>\<newline>| B | C |\<newline>\<newline>---'' =
     ''| A |\<newline>| --- |\<newline>\<newline>| B | C |\<newline>| --- | --- |\<newline>\<newline>---''"
    unfolding ev2 .
next
  have nd: "\<not> includes_str ''| A | B |\<newline>'' ''---''"
    by code_simp
  have ev3: "replace_code_blocks ''| A | B |\<newline>'' = ''| A | B |\<newline>''"
    by code_simp
  from sanitizeMarkdown_inserts_separator[of "''| A | B |\<newline>''" "[]" "[]" "[]" "[]"] nd
  have "sanitizeMarkdown ''| A | B |\<newline>'' = replace_code_blocks ''| A | B |\<newline>''"
    by blast
  then show "sanitizeMarkdown ''| A | B |\<newline>'' = ''| A | B |\<newline>''"
    unfolding ev3 .
qed



text \<open>
  C5. A stream whose last block is the sentinel should add to the draft the fragments
  of the blocks before it, and nothing for the sentinel. \<^verbatim>\<open>readStream\<close> passes each
  payload, the sentinel too, to \<^verbatim>\<open>onChunk\<close> as a string, while the \<^verbatim>\<open>onChunk\<close> of the
  component reads \<^verbatim>\<open>event.data\<close> of its argument (declared a \<^verbatim>\<open>MessageEvent\<close>). For a
  string that property is
  \<^verbatim>\<open>undefined\<close>: the comparison with \<^verbatim>\<open>[DONE]\<close> fails, \<^verbatim>\<open>JSON.parse\<close> throws, and the
  fallback appends the text \<^verbatim>\<open>undefined\<close>. For the stream with the blocks \<^verbatim>\<open>data: Hello\<close>
  and \<^verbatim>\<open>data: [DONE]\<close> the draft ends as \<^verbatim>\<open>undefinedundefined\<close>, not as \<^verbatim>\<open>Hello\<close>.
\<close>

theorem sentinel_stream_appends_undefined:
  "readStream recorder [Value ''data: Hello\<newline>\<newline>data: [DONE]\<newline>\<newline>''] [] =
     [Fragment (JSString ''Hello''), Fragment (JSString ''[DONE]''), Completed] \<and>
   streamingMessage
     (readStream (streamingOptions parse captured now stamp chatId)
        [Value ''data: Hello\<newline>\<newline>data: [DONE]\<newline>\<newline>'']
        \<lparr>isTyping = True, streamingEnabled = True, streamingMessage = [],
         localMessages = [], refetchRequests = 0\<rparr>)
   = ''undefinedundefined''"
proof
  show "readStream recorder [Value ''data: Hello\<newline>\<newline>data: [DONE]\<newline>\<newline>''] [] =
     [Fragment (JSString ''Hello''), Fragment (JSString ''[DONE]''), Completed]"
    by code_simp
  show "streamingMessage
     (readStream (streamingOptions parse captured now stamp chatId)
        [Value ''data: Hello\<newline>\<newline>data: [DONE]\<newline>\<newline>'']
        \<lparr>isTyping = True, streamingEnabled = True, streamingMessage = [],
         localMessages = [], refetchRequests = 0\<rparr>)
   = ''undefinedundefined''"
    by (simp add: streamingOptions_def split_def startsWith_def deliver_line_def substring_def
        Chat_onChunk_string finally_clause_def Chat_onComplete_def refetchMessages_def Let_def)
qed

text \<open>
  C6. A data block whose payload is not valid JSON should add the payload itself to the
  draft, and a payload that is valid JSON should add the decoded string. The \<^verbatim>\<open>onChunk\<close> of
  the component does this for a \<^verbatim>\<open>MessageEvent\<close> (\<^verbatim>\<open>Chat_onChunk_message_event\<close>), but
  \<^verbatim>\<open>readStream\<close> hands it the payload as a bare string, and for a string \<^verbatim>\<open>event.data\<close> is
  \<^verbatim>\<open>undefined\<close>. The block \<^verbatim>\<open>data: hello\<close> adds the text \<^verbatim>\<open>undefined\<close> to the draft, not
  \<^verbatim>\<open>hello\<close>; so does the block whose payload is the JSON text of the string \<^verbatim>\<open>lo\<close>, and
  so does every other data block.
\<close>

theorem data_block_appends_undefined:
  "streamingMessage
     (readStream (streamingOptions parse captured now stamp chatId)
        [Value ''data: hello\<newline>\<newline>'']
        \<lparr>isTyping = True, streamingEnabled = True, streamingMessage = [],
         localMessages = [], refetchRequests = 0\<rparr>)
   = ''undefined'' \<and>
   streamingMessage
     (readStream (streamingOptions parse captured now stamp chatId)
        [Value (''data: '' @ [CHR 0x22] @ ''lo'' @ [CHR 0x22] @ ''\<newline>\<newline>'')]
        \<lparr>isTyping = True, streamingEnabled = True, streamingMessage = ''Hel'',
         localMessages = [], refetchRequests = 0\<rparr>)
   = ''Helundefined'' \<and>
   deliver_line (streamingOptions parse captured now stamp chatId) (''data: '' @ c # cs) st =
     st\<lparr>streamingMessage := streamingMessage st @ ''undefined''\<rparr>"
proof (intro conjI)
  show "streamingMessage
     (readStream (streamingOptions parse captured now stamp chatId)
        [Value ''data: hello\<newline>\<newline>'']
        \<lparr>isTyping = True, streamingEnabled = True, streamingMessage = [],
         localMessages = [], refetchRequests = 0\<rparr>)
   = ''undefined''"
    by (simp add: streamingOptions_def split_def startsWith_def deliver_line_def substring_def
        Chat_onChunk_string finally_clause_def Chat_onComplete_def refetchMessages_def Let_def)
  show "streamingMessage
     (readStream (streamingOptions parse captured now stamp chatId)
        [Value (''data: '' @ [CHR 0x22] @ ''lo'' @ [CHR 0x22] @ ''\<newline>\<newline>'')]
        \<lparr>isTyping = True, streamingEnabled = True, streamingMessage = ''Hel'',
         localMessages = [], refetchRequests = 0\<rparr>)
   = ''Helundefined''"
    by (simp add: streamingOptions_def split_def startsWith_def deliver_line_def substring_def
        Chat_onChunk_string finally_clause_def Chat_onComplete_def refetchMessages_def Let_def)
  show "deliver_line (streamingOptions parse captured now stamp chatId) (''data: '' @ c # cs) st =
     st\<lparr>streamingMessage := streamingMessage st @ ''undefined''\<rparr>"
    by (rule deliver_data_line) simp
qed

text \<open>
  C7. After the fragments \<^verbatim>\<open>Hel\<close>, \<^verbatim>\<open>lo wor\<close> and \<^verbatim>\<open>ld\<close> have been delivered, cancelling
  should commit a local assistant entry with the content \<^verbatim>\<open>Hello world\<close>.
  \<^verbatim>\<open>handleStopStreaming\<close> does commit the draft it finds
  (\<^verbatim>\<open>handleStopStreaming_salvages_draft\<close>), but the draft does not hold the fragments:
  \<^verbatim>\<open>readStream\<close> hands each payload to \<^verbatim>\<open>onChunk\<close> as a bare string, for which
  \<^verbatim>\<open>event.data\<close> is \<^verbatim>\<open>undefined\<close>, so each fragment has added the text \<^verbatim>\<open>undefined\<close>. With
  the three blocks read and the stream still in flight, cancelling commits an entry with
  the content \<^verbatim>\<open>undefinedundefinedundefined\<close>.
\<close>

theorem cancel_commits_undefined_draft:
  "handleStopStreaming cancelStreamingResponse 1700000000000 ''2024-01-01T00:00:00.000Z'' 7
     (readChunks (streamingOptions parse captured now stamp 7)
        [''data: Hel\<newline>\<newline>'', ''data: lo wor\<newline>\<newline>'', ''data: ld\<newline>\<newline>'']
        \<lparr>isTyping = True, streamingEnabled = True, streamingMessage = [],
         localMessages = [], refetchRequests = 0\<rparr>, tr) =
   (\<lparr>isTyping = False, streamingEnabled = True,
     streamingMessage = ''undefinedundefinedundefined'',
     localMessages =
       [\<lparr>message_id = 1700000000000, chat_id = 7, role = Assistant,
         content = ''undefinedundefinedundefined'', created_at = ''2024-01-01T00:00:00.000Z''\<rparr>],
     refetchRequests = 0\<rparr>, cancelStreamingResponse tr)"
proof -
  have draft: "readChunks (streamingOptions parse captured now stamp 7)
        [''data: Hel\<newline>\<newline>'', ''data: lo wor\<newline>\<newline>'', ''data: ld\<newline>\<newline>'']
        \<lparr>isTyping = True, streamingEnabled = True, streamingMessage = [],
         localMessages = [], refetchRequests = 0\<rparr> =
     \<lparr>isTyping = True, streamingEnabled = True, streamingMessage = ''undefinedundefinedundefined'',
      localMessages = [], refetchRequests = 0\<rparr>"
    by (simp add: streamingOptions_def split_def startsWith_def deliver_line_def substring_def
        Chat_onChunk_string Let_def)
  show ?thesis
    unfolding draft
    using handleStopStreaming_salvages_draft[of
        "\<lparr>isTyping = True, streamingEnabled = True, streamingMessage = ''undefinedundefinedundefined'',
          localMessages = [], refetchRequests = 0\<rparr>"
        cancelStreamingResponse 1700000000000 "''2024-01-01T00:00:00.000Z''" 7 tr]
    by (simp add: sanitize_undefined3 trim_undefined3)
qed

text \<open>
  C8. Sanitizing twice is meant to give what sanitizing once gives. The code does not do
  so: a fence that opens on the last line has no \<^verbatim>\<open>end\<close> group, so three backticks are
  appended; in the result the regular expression reads the appended backticks as the
  \<^verbatim>\<open>lang\<close> of the first fence, again finds no \<^verbatim>\<open>end\<close>, and appends three more. The table
  repair behaves alike: the separator it inserts contains spaces, the test for an existing
  separator accepts dashes and pipes only, and a second pass inserts a second separator.
\<close>

theorem sanitizeMarkdown_twice_differs:
  "sanitizeMarkdown fence = fence @ fence \<and>
   sanitizeMarkdown (sanitizeMarkdown fence) = fence @ fence @ fence \<and>
   sanitizeMarkdown (sanitizeMarkdown fence) \<noteq> sanitizeMarkdown fence \<and>
   sanitizeMarkdown ''| A | B |\<newline>\<newline>---'' = ''| A | B |\<newline>| --- | --- |\<newline>\<newline>---'' \<and>
   sanitizeMarkdown (sanitizeMarkdown ''| A | B |\<newline>\<newline>---'') =
     ''| A | B |\<newline>| --- | --- |\<newline>| --- | --- |\<newline>\<newline>---''"
  by code_simp

text \<open>
  C9. For every input string the sanitizer returns a string and raises nothing: the body
  of its \<^verbatim>\<open>try\<close> block always completes, and its result is what \<^verbatim>\<open>sanitizeMarkdown\<close>
  returns. Were the body to throw any error, the \<^verbatim>\<open>catch\<close> clause would hand back the
  content it was given, unmodified.
\<close>

theorem sanitizeMarkdown_never_throws:
  "sanitize_try src = Inr (sanitizeMarkdown src) \<and> catch_fallback src (Inl e) = src"
proof -
  obtain r where r: "fix_tables src = Inr r"
    using fix_tables_ok by blast
  have "src = [] \<Longrightarrow> r = []"
    using r by (simp add: fix_tables_def)
  with r have "sanitize_try src = Inr (sanitizeMarkdown src)"
    by (cases "src = []") (simp_all add: sanitize_try_def sanitizeMarkdown_def catch_fallback_def)
  then show ?thesis
    by (simp add: catch_fallback_def)
qed

text \<open>
  C10. In streaming mode, when the server answers with an OK status and a body,
  \<^verbatim>\<open>sendMessage\<close> resolves with the placeholder message: id \<^verbatim>\<open>-1\<close>, role assistant, empty
  content. It does so before anything of the body has been read: the whole body is still
  in flight and no callback has run. The value does not depend on the body, so it is never
  the message the server persists.
\<close>

theorem sendMessage_streaming_placeholder:
  assumes "streaming options" and "fetch net = Inr response" and "ok response"
    and "body response = Some reader"
  shows "sendMessage chatId message (Some options) net now tr =
     (Inr \<lparr>message_id = -1, chat_id = chatId, role = Assistant, content = [], created_at = now\<rparr>,
      tr\<lparr>inFlight := inFlight tr @ [(chatId, reader)]\<rparr>)"
  using assms by (simp add: sendMessage_def placeholderMessage_def)

text \<open>
  The same at a concrete input: a body of two chunks, both still unread afterwards.
\<close>

theorem sendMessage_streaming_placeholder_witness:
  "sendMessage 7 \<lparr>form_role = User, form_content = ''hi''\<rparr> (Some recorder)
     \<lparr>post = Inl (NetworkError ''unused''),
      fetch = Inr \<lparr>ok = True, status = 200,
                   body = Some [Value ''data: Hello\<newline>\<newline>'', Value ''data: [DONE]\<newline>\<newline>'']\<rparr>\<rparr>
     ''2024-01-01T00:00:00.000Z'' \<lparr>inFlight = []\<rparr> =
   (Inr \<lparr>message_id = -1, chat_id = 7, role = Assistant, content = [],
         created_at = ''2024-01-01T00:00:00.000Z''\<rparr>,
    \<lparr>inFlight = [(7, [Value ''data: Hello\<newline>\<newline>'', Value ''data: [DONE]\<newline>\<newline>''])]\<rparr>)"
  using sendMessage_streaming_placeholder[of recorder
      "\<lparr>post = Inl (NetworkError ''unused''),
      fetch = Inr \<lparr>ok = True, status = 200,
                   body = Some [Value ''data: Hello\<newline>\<newline>'', Value ''data: [DONE]\<newline>\<newline>'']\<rparr>\<rparr>"
      "\<lparr>ok = True, status = 200,
                   body = Some [Value ''data: Hello\<newline>\<newline>'', Value ''data: [DONE]\<newline>\<newline>'']\<rparr>"
      "[Value ''data: Hello\<newline>\<newline>'', Value ''data: [DONE]\<newline>\<newline>'']"
      7 "\<lparr>form_role = User, form_content = ''hi''\<rparr>" "''2024-01-01T00:00:00.000Z''"
      "\<lparr>inFlight = []\<rparr>"]
  by (simp add: recorder_def)

end
